theory Spec2Isabelle
  imports Complex_Main "HOL-Library.Word"
begin

unbundle bit_operations_syntax

section \<open>JavaScript string and number primitives used by the dispensers\<close>

text \<open>
  Strings are lists of code units; the replies handled here come from a serial port as bytes,
  so a code unit is a \<^typ>\<open>char\<close> and \<open>charCodeAt\<close> is \<^term>\<open>of_char\<close>.
\<close>

definition charCodeAt :: "char \<Rightarrow> nat" where
  "charCodeAt c = of_char c"

definition digit_char :: "nat \<Rightarrow> char" where
  "digit_char d = ''0123456789'' ! d"

text \<open>\<open>Number.prototype.toString(10)\<close> on a non-negative integer.\<close>

fun toString10 :: "nat \<Rightarrow> string" where
  "toString10 n = (if n < 10 then [digit_char n] else toString10 (n div 10) @ [digit_char (n mod 10)])"

declare toString10.simps [simp del]

text \<open>\<open>padStart\<close> and \<open>padEnd\<close> with a one-character filler.\<close>

definition padStart :: "nat \<Rightarrow> char \<Rightarrow> string \<Rightarrow> string" where
  "padStart targetLength c s = replicate (targetLength - length s) c @ s"

definition padEnd :: "nat \<Rightarrow> char \<Rightarrow> string \<Rightarrow> string" where
  "padEnd targetLength c s = s @ replicate (targetLength - length s) c"

section \<open>Neogi: decimal checksum\<close>

text \<open>The loop \<open>for (i = 0; i < data.length; i++) sum += data.charCodeAt(i)\<close>.\<close>

fun sumCharCodes :: "string \<Rightarrow> nat \<Rightarrow> nat" where
  "sumCharCodes [] acc = acc"
| "sumCharCodes (c # cs) acc = sumCharCodes cs (acc + charCodeAt c)"

definition calculateChecksum :: "string \<Rightarrow> string" where
  "calculateChecksum data = padStart 2 (CHR ''0'') (toString10 (sumCharCodes data 0 mod 100))"

text \<open>
  The checksum as the specification words it: the sum of the character codes, reduced modulo
  100, written as exactly two decimal digits.
\<close>

definition decimalChecksum :: "string \<Rightarrow> string" where
  "decimalChecksum text =
     (let n = sum_list (map charCodeAt text) mod 100
      in [digit_char (n div 10), digit_char (n mod 10)])"

section \<open>Neogi: the two regular expressions of \<open>parseResponse\<close>\<close>

text \<open>The character classes \<open>\d\<close>, \<open>[A-Z0-9]\<close> and \<open>.\<close> (anything but a line terminator).\<close>

definition isDigit :: "char \<Rightarrow> bool" where
  "isDigit c = (48 \<le> charCodeAt c \<and> charCodeAt c \<le> 57)"

definition isUpperOrDigit :: "char \<Rightarrow> bool" where
  "isUpperOrDigit c = ((65 \<le> charCodeAt c \<and> charCodeAt c \<le> 90) \<or> isDigit c)"

definition isLineTerminator :: "char \<Rightarrow> bool" where
  "isLineTerminator c = (charCodeAt c = 10 \<or> charCodeAt c = 13)"

text \<open>
  \<open>ascii.match(/#([A-Z0-9]+)%/)\<close>: the search tries every start position from the left. At a
  \<open>#\<close> the greedy class run is the longest run of class characters; since \<open>%\<close> is not in the
  class, giving characters back cannot help, so the attempt succeeds exactly when the run is
  non-empty and followed by \<open>%\<close>. The result is capture group 1.
\<close>

fun matchSimpleAck :: "string \<Rightarrow> string option" where
  "matchSimpleAck [] = None"
| "matchSimpleAck (c # cs) =
     (if c = CHR ''#'' \<and> takeWhile isUpperOrDigit cs \<noteq> [] \<and>
         take 1 (dropWhile isUpperOrDigit cs) = ''%''
      then Some (takeWhile isUpperOrDigit cs)
      else matchSimpleAck cs)"

text \<open>
  \<open>ascii.match(/#(.+?)#(\d{2})%/)\<close>. \<open>matchChecksumTail\<close> is the part after the lazy group:
  \<open>#\<close>, two digits (capture group 2) and \<open>%\<close>. \<open>matchLazyContent\<close> is the lazy group
  \<open>(.+?)\<close> after the opening \<open>#\<close>: it takes one more character at a time, never a line
  terminator, and stops at the first length for which the tail matches.
\<close>

fun matchChecksumTail :: "string \<Rightarrow> string option" where
  "matchChecksumTail (h # d1 # d2 # p # rest) =
     (if h = CHR ''#'' \<and> isDigit d1 \<and> isDigit d2 \<and> p = CHR ''%'' then Some [d1, d2] else None)"
| "matchChecksumTail _ = None"

fun matchLazyContent :: "string \<Rightarrow> string \<Rightarrow> (string \<times> string) option" where
  "matchLazyContent content [] = None"
| "matchLazyContent content (c # cs) =
     (if isLineTerminator c then None
      else (case matchChecksumTail cs of
              Some cs2 \<Rightarrow> Some (content @ [c], cs2)
            | None \<Rightarrow> matchLazyContent (content @ [c]) cs))"

fun matchDataReply :: "string \<Rightarrow> (string \<times> string) option" where
  "matchDataReply [] = None"
| "matchDataReply (c # cs) =
     (if c = CHR ''#''
      then (case matchLazyContent [] cs of
              Some m \<Rightarrow> Some m
            | None \<Rightarrow> matchDataReply cs)
      else matchDataReply cs)"

section \<open>Neogi: \<open>parseResponse\<close>\<close>

record DecodedReply =
  command :: string
  data :: string
  checksum :: "string option"
  isSimpleAck :: bool

text \<open>
  The two \<open>Error\<close>s thrown by \<open>parseResponse\<close>: \<open>Invalid response format: <ascii>\<close> and
  \<open>Checksum validation failed. Expected: <calculated>, Got: <checksum>, Content: <content>\<close>.
\<close>

datatype error =
    InvalidResponseFormat string
  | ChecksumValidationFailed string string string

definition startsWithHash :: "string \<Rightarrow> bool" where
  "startsWithHash res = (take 1 res = ''#'')"

text \<open>\<open>ascii.includes('#', 1)\<close>: the search starts at position 1.\<close>

definition includesHashFrom1 :: "string \<Rightarrow> bool" where
  "includesHashFrom1 ascii = (CHR ''#'' \<in> set (drop 1 ascii))"

text \<open>\<open>substring(0, 2)\<close> and \<open>substring(2)\<close> are \<^term>\<open>take 2\<close> and \<^term>\<open>drop 2\<close>.\<close>

definition simpleAckReply :: "string \<Rightarrow> DecodedReply" where
  "simpleAckReply token =
     \<lparr>command = (if length token \<ge> 2 then take 2 token else token),
      data = (if length token > 2 then drop 2 token else []),
      checksum = None,
      isSimpleAck = True\<rparr>"

text \<open>
  The data-reply half of \<open>parseResponse\<close>. The two copies of \<open>Neogi.ts\<close> differ only in the text
  the checksum is recomputed from: the first recomputes it from the content followed by the
  closing \<open>#\<close> (\<open>withHash = True\<close>), the second from the content alone.
\<close>

definition parseDataReply :: "bool \<Rightarrow> string \<Rightarrow> error + DecodedReply" where
  "parseDataReply withHash ascii =
     (case matchDataReply ascii of
        None \<Rightarrow> Inl (InvalidResponseFormat ascii)
      | Some (content, cs) \<Rightarrow>
          (let calculatedChecksum =
                 calculateChecksum (if withHash then content @ ''#'' else content)
           in if calculatedChecksum \<noteq> cs
              then Inl (ChecksumValidationFailed calculatedChecksum cs content)
              else Inr \<lparr>command = take 2 content, data = drop 2 content,
                        checksum = Some cs, isSimpleAck = False\<rparr>))"

text \<open>
  \<open>hex2a\<close> belongs to \<open>BaseDispenser\<close> and is a parameter here; it is only applied to replies
  that do not start with \<open>#\<close>.
\<close>

definition parseResponseWith :: "bool \<Rightarrow> (string \<Rightarrow> string) \<Rightarrow> string \<Rightarrow> error + DecodedReply" where
  "parseResponseWith withHash hex2a res =
     (let ascii = (if startsWithHash res then res else hex2a res)
      in case (if \<not> includesHashFrom1 ascii then matchSimpleAck ascii else None) of
           Some token \<Rightarrow> Inr (simpleAckReply token)
         | None \<Rightarrow> parseDataReply withHash ascii)"

text \<open>\<open>parseResponse\<close> of the first copy of the file, and of the second.\<close>

definition parseResponse :: "(string \<Rightarrow> string) \<Rightarrow> string \<Rightarrow> error + DecodedReply" where
  "parseResponse = parseResponseWith True"

definition parseResponse2 :: "(string \<Rightarrow> string) \<Rightarrow> string \<Rightarrow> error + DecodedReply" where
  "parseResponse2 = parseResponseWith False"

text \<open>
  Modelled from the spec: \<open>BaseDispenser.hex2a\<close> is not among the sources. The specification
  says that a reply may arrive as a hex-encoded byte string; this reading turns each pair of
  hexadecimal digits into the character with that code. The theorems below hold for every
  \<open>hex2a\<close>; this one only instantiates them at concrete replies.
\<close>

definition hexDigitValue :: "char \<Rightarrow> nat" where
  "hexDigitValue c =
     (let k = charCodeAt c
      in if 48 \<le> k \<and> k \<le> 57 then k - 48
         else if 97 \<le> k \<and> k \<le> 102 then k - 87
         else if 65 \<le> k \<and> k \<le> 70 then k - 55
         else 0)"

fun hex2a_spec :: "string \<Rightarrow> string" where
  "hex2a_spec (h # l # rest) = char_of (16 * hexDigitValue h + hexDigitValue l) # hex2a_spec rest"
| "hex2a_spec _ = []"

section \<open>Neogi: building checksummed commands\<close>

definition buildCommand :: "string \<Rightarrow> string" where
  "buildCommand cmd = cmd @ [CHR 0x0D]"

definition buildCommandWithChecksum :: "string \<Rightarrow> string" where
  "buildCommandWithChecksum payload = ''#'' @ payload @ ''#'' @ calculateChecksum payload @ ''%''"

text \<open>
  \<open>value.toFixed(2)\<close> for a finite number below \<open>10^21\<close> in magnitude, on the exact value of the
  number: the integer \<open>n\<close> nearest to \<open>|value| * 100\<close> (the larger one at a tie), printed with at
  least three digits and a point before the last two, after a minus sign for a negative value.
\<close>

definition toFixed2 :: "real \<Rightarrow> string" where
  "toFixed2 x =
     (let n = nat \<lfloor>\<bar>x\<bar> * 100 + 1 / 2\<rfloor>;
          m = padStart 3 (CHR ''0'') (toString10 n);
          s = take (length m - 2) m @ ''.'' @ drop (length m - 2) m
      in if x < 0 then ''-'' @ s else s)"

text \<open>
  \<open>buildPresetCommand(value, vehicleNo, mode = '*')\<close> of the first copy of the file. An absent
  \<open>vehicleNo\<close> is \<open>None\<close>; the empty string is falsy as well and also gives ten spaces.
\<close>

definition buildPresetCommand :: "real \<Rightarrow> string option \<Rightarrow> string \<Rightarrow> string" where
  "buildPresetCommand v vehicleNo mode =
     (let volumeStr = padStart 7 (CHR ''0'') (toFixed2 v);
          vehicle = (case vehicleNo of
                       None \<Rightarrow> replicate 10 (CHR '' '')
                     | Some vn \<Rightarrow> if vn = [] then replicate 10 (CHR '' '')
                                 else take 10 (padEnd 10 (CHR '' '') vn));
          payload = ''SL'' @ volumeStr @ ''$'' @ mode @ vehicle
      in buildCommandWithChecksum payload)"

section \<open>Neogi: status and running volume\<close>

text \<open>\<open>String.prototype.trim\<close> on byte-sized code units: tab, LF, VT, FF, CR, space, NBSP.\<close>

definition isWhiteSpace :: "char \<Rightarrow> bool" where
  "isWhiteSpace c = (charCodeAt c \<in> {9, 10, 11, 12, 13, 32, 160})"

definition trim :: "string \<Rightarrow> string" where
  "trim s = rev (dropWhile isWhiteSpace (rev (dropWhile isWhiteSpace s)))"

record NeogiStatus =
  state :: string

definition Neogi_processStatus :: "(string \<Rightarrow> string) \<Rightarrow> string \<Rightarrow> error + NeogiStatus" where
  "Neogi_processStatus hex2a res =
     (case parseResponse hex2a res of
        Inl e \<Rightarrow> Inl e
      | Inr parsed \<Rightarrow> Inr \<lparr>state = trim (data parsed)\<rparr>)"

text \<open>\<open>try { this.processStatus(res); return true } catch (e) { return false }\<close>.\<close>

definition Neogi_isOnline :: "(string \<Rightarrow> string) \<Rightarrow> string \<Rightarrow> bool" where
  "Neogi_isOnline hex2a res =
     (case Neogi_processStatus hex2a res of Inr _ \<Rightarrow> True | Inl _ \<Rightarrow> False)"

section \<open>JavaScript numbers\<close>

text \<open>
  A Number is an IEEE 754 binary64 value: \<open>NaN\<close>, an infinity or a zero with its sign bit
  (\<open>True\<close> for negative), or a non-zero finite value, held as the real number it denotes.
\<close>

datatype number = NaN | Infinity bool | Zero bool | Finite real

text \<open>Rounding to the nearest integer, ties to the even one.\<close>

definition roundHalfEven :: "real \<Rightarrow> int" where
  "roundHalfEven x =
     (let f = \<lfloor>x\<rfloor>; d = x - of_int f
      in if d < 1 / 2 then f
         else if 1 / 2 < d then f + 1
         else if even f then f else f + 1)"

text \<open>
  The binary exponent \<open>e\<close> of a positive real, \<open>2^e \<le> a < 2^(e+1)\<close>, found by halving or
  doubling; the first argument bounds the number of steps.
\<close>

fun binaryExponent :: "nat \<Rightarrow> real \<Rightarrow> int" where
  "binaryExponent fuel a =
     (if fuel = 0 then 0
      else if a < 1 then binaryExponent (fuel - 1) (2 * a) - 1
      else if 2 \<le> a then binaryExponent (fuel - 1) (a / 2) + 1
      else 0)"

declare binaryExponent.simps [simp del]

text \<open>
  The binary64 value of a real magnitude \<open>a \<ge> 0\<close> with a sign, round to nearest, ties to even:
  53 significant bits, so the spacing at exponent \<open>e\<close> is \<open>2^(e-52)\<close>; below \<open>2^-1022\<close> the
  spacing stays \<open>2^-1074\<close> (subnormals, down to a signed zero); a result of \<open>2^1024\<close> or more
  is an infinity.
\<close>

definition roundToDouble :: "bool \<Rightarrow> real \<Rightarrow> number" where
  "roundToDouble neg a =
     (if a = 0 then Zero neg
      else if 2 ^ 1024 \<le> a then Infinity neg
      else
        (let e = (if a < 1 / 2 ^ 1022 then - 1022 else binaryExponent 1100 a);
             ulp = (if 52 \<le> e then 2 ^ nat (e - 52) else 1 / 2 ^ nat (52 - e));
             m = of_int (roundHalfEven (a / ulp)) * ulp
         in if m = 0 then Zero neg
            else if 2 ^ 1024 \<le> m then Infinity neg
            else Finite (if neg then - m else m)))"

definition negative :: "number \<Rightarrow> bool" where
  "negative n = (case n of NaN \<Rightarrow> False | Infinity s \<Rightarrow> s | Zero s \<Rightarrow> s | Finite x \<Rightarrow> x < 0)"

text \<open>
  The operators \<open>/\<close>, \<open>*\<close> and \<open>-\<close> on Numbers: the exact result rounded, with the rules of
  IEEE 754 for \<open>NaN\<close>, the infinities and the zeros. A zero is \<open>Zero\<close>; should a divisor be
  written \<open>Finite 0\<close>, it divides as the positive zero does.
\<close>

fun js_div :: "number \<Rightarrow> number \<Rightarrow> number" where
  "js_div NaN b = NaN"
| "js_div a NaN = NaN"
| "js_div (Infinity s) (Infinity t) = NaN"
| "js_div (Infinity s) b = Infinity (s \<noteq> negative b)"
| "js_div a (Infinity t) = Zero (negative a \<noteq> t)"
| "js_div (Zero s) (Zero t) = NaN"
| "js_div (Zero s) (Finite y) = Zero (s \<noteq> (y < 0))"
| "js_div (Finite x) (Zero t) = Infinity ((x < 0) \<noteq> t)"
| "js_div (Finite x) (Finite y) =
     (if y = 0 then (if x = 0 then NaN else Infinity (x < 0))
      else roundToDouble ((x < 0) \<noteq> (y < 0)) (\<bar>x\<bar> / \<bar>y\<bar>))"

fun js_mul :: "number \<Rightarrow> number \<Rightarrow> number" where
  "js_mul NaN b = NaN"
| "js_mul a NaN = NaN"
| "js_mul (Infinity s) (Zero t) = NaN"
| "js_mul (Zero s) (Infinity t) = NaN"
| "js_mul (Infinity s) b = Infinity (s \<noteq> negative b)"
| "js_mul a (Infinity t) = Infinity (negative a \<noteq> t)"
| "js_mul (Zero s) b = Zero (s \<noteq> negative b)"
| "js_mul a (Zero t) = Zero (negative a \<noteq> t)"
| "js_mul (Finite x) (Finite y) = roundToDouble ((x < 0) \<noteq> (y < 0)) (\<bar>x\<bar> * \<bar>y\<bar>)"

fun js_sub :: "number \<Rightarrow> number \<Rightarrow> number" where
  "js_sub NaN b = NaN"
| "js_sub a NaN = NaN"
| "js_sub (Infinity s) (Infinity t) = (if s = t then NaN else Infinity s)"
| "js_sub (Infinity s) b = Infinity s"
| "js_sub a (Infinity t) = Infinity (\<not> t)"
| "js_sub (Zero s) (Zero t) = Zero (s \<and> \<not> t)"
| "js_sub (Zero s) (Finite y) = Finite (- y)"
| "js_sub (Finite x) (Zero t) = Finite x"
| "js_sub (Finite x) (Finite y) =
     (if x = y then Zero False else roundToDouble (x < y) \<bar>x - y\<bar>)"

text \<open>
  The relational operators: every comparison with \<open>NaN\<close> is false, the two zeros are equal,
  and the infinities lie outside all finite values.
\<close>

fun orderKey :: "number \<Rightarrow> int \<times> real" where
  "orderKey NaN = (0, 0)"
| "orderKey (Infinity s) = (if s then - 1 else 1, 0)"
| "orderKey (Zero s) = (0, 0)"
| "orderKey (Finite x) = (0, x)"

definition js_lt :: "number \<Rightarrow> number \<Rightarrow> bool" where
  "js_lt a b =
     (a \<noteq> NaN \<and> b \<noteq> NaN \<and>
      (fst (orderKey a) < fst (orderKey b) \<or>
       (fst (orderKey a) = fst (orderKey b) \<and> snd (orderKey a) < snd (orderKey b))))"

definition js_gt :: "number \<Rightarrow> number \<Rightarrow> bool" where
  "js_gt a b = js_lt b a"

definition js_le :: "number \<Rightarrow> number \<Rightarrow> bool" where
  "js_le a b = (a \<noteq> NaN \<and> b \<noteq> NaN \<and> \<not> js_lt b a)"

definition js_ge :: "number \<Rightarrow> number \<Rightarrow> bool" where
  "js_ge a b = js_le b a"

text \<open>
  \<open>parseFloat\<close>: leading white space is skipped, then the longest prefix that is a
  \<open>StrDecimalLiteral\<close> is taken (a sign, then \<open>Infinity\<close> or digits with an optional point and
  fraction, or a point and digits; an exponent counts only with at least one digit), and its
  mathematical value is rounded to a Number. Without such a prefix the result is \<open>NaN\<close>.
\<close>

fun digitsValue :: "string \<Rightarrow> nat \<Rightarrow> nat" where
  "digitsValue [] acc = acc"
| "digitsValue (c # cs) acc = digitsValue cs (10 * acc + (charCodeAt c - 48))"

definition parseExponent :: "string \<Rightarrow> int" where
  "parseExponent rest =
     (if take 1 rest = ''e'' \<or> take 1 rest = ''E''
      then (let more = drop 1 rest;
                neg = (take 1 more = ''-'');
                ds = takeWhile isDigit
                       (if take 1 more = ''-'' \<or> take 1 more = ''+'' then drop 1 more else more)
            in if ds = [] then 0
               else if neg then - int (digitsValue ds 0) else int (digitsValue ds 0))
      else 0)"

definition parseUnsignedDecimal :: "string \<Rightarrow> real option" where
  "parseUnsignedDecimal s =
     (let ip = takeWhile isDigit s;
          afterInt = dropWhile isDigit s;
          hasPoint = (take 1 afterInt = ''.'');
          fp = (if hasPoint then takeWhile isDigit (drop 1 afterInt) else []);
          afterFrac = (if hasPoint then dropWhile isDigit (drop 1 afterInt) else afterInt);
          mantissa = real (digitsValue ip 0) + real (digitsValue fp 0) / 10 ^ length fp;
          ex = parseExponent afterFrac
      in if ip = [] \<and> fp = [] then None
         else Some (if 0 \<le> ex then mantissa * 10 ^ nat ex else mantissa / 10 ^ nat (- ex)))"

definition js_parseFloat :: "string \<Rightarrow> number" where
  "js_parseFloat inputString =
     (let trimmed = dropWhile isWhiteSpace inputString;
          neg = (take 1 trimmed = ''-'');
          body = (if take 1 trimmed = ''-'' \<or> take 1 trimmed = ''+'' then drop 1 trimmed
                  else trimmed)
      in if take 8 body = ''Infinity'' then Infinity neg
         else (case parseUnsignedDecimal body of
                 None \<Rightarrow> NaN
               | Some mv \<Rightarrow> roundToDouble neg mv))"

section \<open>Neogi: running volume and order completion\<close>

text \<open>
  \<open>parseFloat\<close> is passed in; \<open>js_parseFloat\<close> above is the builtin. The running volume, the
  quantity and every intermediate result are Numbers.
\<close>

record RunningVolume =
  volume :: number

definition processRunningVolume ::
  "(string \<Rightarrow> number) \<Rightarrow> (string \<Rightarrow> string) \<Rightarrow> string \<Rightarrow> error + RunningVolume" where
  "processRunningVolume parseFloat hex2a res =
     (case parseResponse hex2a res of
        Inl e \<Rightarrow> Inl e
      | Inr parsed \<Rightarrow> Inr \<lparr>volume = parseFloat (trim (data parsed))\<rparr>)"

text \<open>
  The result object of \<open>isOrderComplete\<close>; its \<open>status\<close> field is \<open>orderStatus\<close> here, since
  \<open>status\<close> is the field of the TCS3000 status object below.
\<close>

record OrderProgress =
  orderStatus :: bool
  percentage :: number
  dispensedQty :: number

text \<open>\<open>toFixedNumber\<close> belongs to \<open>BaseDispenser\<close> and is a parameter.\<close>

definition Neogi_isOrderComplete ::
  "(string \<Rightarrow> number) \<Rightarrow> (number \<Rightarrow> nat \<Rightarrow> number) \<Rightarrow> (string \<Rightarrow> string) \<Rightarrow> string \<Rightarrow> number
     \<Rightarrow> error + OrderProgress" where
  "Neogi_isOrderComplete parseFloat toFixedNumber hex2a res quantity =
     (case processRunningVolume parseFloat hex2a res of
        Inl e \<Rightarrow> Inl e
      | Inr volumeData \<Rightarrow>
          (let dispensed = volume volumeData;
               pct = js_mul (js_div dispensed quantity) (Finite 100)
           in Inr \<lparr>orderStatus = js_ge dispensed quantity,
                    percentage = toFixedNumber pct 2,
                    dispensedQty = toFixedNumber dispensed 2\<rparr>))"

text \<open>
  Modelled from the spec: \<open>BaseDispenser.toFixedNumber\<close> is not among the sources. The
  specification's rounding policy is round-half-away-from-zero at the given number of decimal
  places; the result is the Number nearest to that decimal, and \<open>NaN\<close>, the infinities and
  the zeros are left as they are.
\<close>

definition toFixedNumber_spec :: "number \<Rightarrow> nat \<Rightarrow> number" where
  "toFixedNumber_spec n digits =
     (case n of
        Finite x \<Rightarrow> roundToDouble (x < 0) (of_int \<lfloor>\<bar>x\<bar> * 10 ^ digits + 1 / 2\<rfloor> / 10 ^ digits)
      | _ \<Rightarrow> n)"

section \<open>TCS3000: command frames and the CRC table\<close>

type_synonym byte = "8 word"

definition totalizerBuffer :: "byte list" where
  "totalizerBuffer = [0x7e, 0x01, 0x00, 0x40, 0x1e, 0x00, 0x47]"

definition read_preset :: "byte list" where
  "read_preset = [0x7e, 0x01, 0x00, 0x40, 0x1f, 0x00, 0x83]"

definition read_status :: "byte list" where
  "read_status = [0x7e, 0x01, 0x00, 0x40, 0x1f, 0x00, 0x83]"

definition pump_start :: "byte list" where
  "pump_start = [0x7e, 0x01, 0x00, 0x40, 0x1f, 0x00, 0x83]"

definition crc_array :: "byte list" where
  "crc_array = [
      0, 94, 188, 226, 97, 63, 221, 131, 194, 156, 126, 32, 163, 253, 31, 65,
      157, 195, 33, 127, 252, 162, 64, 30, 95, 1, 227, 189, 62, 96, 130, 220,
      35, 125, 159, 193, 66, 28, 254, 160, 225, 191, 93, 3, 128, 222, 60, 98,
      190, 224, 2, 92, 223, 129, 99, 61, 124, 34, 192, 158, 29, 67, 161, 255,
      70, 24, 250, 164, 39, 121, 155, 197, 132, 218, 56, 102, 229, 187, 89, 7,
      219, 133, 103, 57, 186, 228, 6, 88, 25, 71, 165, 251, 120, 38, 196, 154,
      101, 59, 217, 135, 4, 90, 184, 230, 167, 249, 27, 69, 198, 152, 122, 36,
      248, 166, 68, 26, 153, 199, 37, 123, 58, 100, 134, 216, 91, 5, 231, 185,
      140, 210, 48, 110, 237, 179, 81, 15, 78, 16, 242, 172, 47, 113, 147, 205,
      17, 79, 173, 243, 112, 46, 204, 146, 211, 141, 111, 49, 178, 236, 14, 80,
      175, 241, 19, 77, 206, 144, 114, 44, 109, 51, 209, 143, 12, 82, 176, 238,
      50, 108, 142, 208, 83, 13, 239, 177, 240, 174, 76, 18, 145, 207, 45, 115,
      202, 148, 118, 40, 171, 245, 23, 73, 8, 86, 180, 234, 105, 55, 213, 139,
      87, 9, 235, 181, 54, 104, 138, 212, 149, 203, 41, 119, 244, 170, 72, 22,
      233, 183, 85, 11, 136, 214, 52, 106, 43, 117, 151, 201, 74, 20, 246, 168,
      116, 42, 200, 150, 21, 75, 169, 247, 182, 232, 10, 84, 215, 137, 107, 53]"

text \<open>
  The connection is the external transport; what matters of it is the sequence of buffers
  written so far. Each command method writes one buffer and then awaits the reply.
\<close>

record connection =
  written :: "byte list list"

definition connection_write :: "byte list \<Rightarrow> connection \<Rightarrow> connection" where
  "connection_write buffer conn = conn\<lparr>written := written conn @ [buffer]\<rparr>"

definition readPreset :: "connection \<Rightarrow> connection" where
  "readPreset conn = connection_write read_preset conn"

definition TCS3000_readStatus :: "connection \<Rightarrow> connection" where
  "TCS3000_readStatus conn = connection_write read_status conn"

definition pumpStart :: "connection \<Rightarrow> connection" where
  "pumpStart conn = connection_write pump_start conn"

section \<open>TCS3000: \<open>sendPreset\<close>\<close>

definition volumePrecursor :: "byte list" where
  "volumePrecursor = [0x7e, 0x01, 0x00, 0x20, 0x38, 0x0b, 0x03, 0x03, 0xf7]"

text \<open>
  The first loop, \<open>for (const byte of volumePrecursor)\<close>, on the pair of the running \<open>crc\<close> and
  \<open>buffer_array\<close>.
\<close>

fun precursorLoop :: "byte list \<Rightarrow> byte \<times> byte list \<Rightarrow> byte \<times> byte list" where
  "precursorLoop [] (crc, buffer_array) = (crc, buffer_array)"
| "precursorLoop (b # bs) (crc, buffer_array) =
     precursorLoop bs (crc_array ! unat (crc XOR b), buffer_array @ [b])"

text \<open>
  The second loop, \<open>for (let i = 0; i < hexQuantity.length; i += 2)\<close>. \<open>doubleToHex\<close> and
  \<open>hexStringToByte\<close> belong to \<open>BaseDispenser\<close> and are parameters; \<open>hexStringToByte\<close> yields a
  byte.
\<close>

function quantityLoop ::
  "(string \<Rightarrow> nat \<Rightarrow> byte) \<Rightarrow> string \<Rightarrow> nat \<Rightarrow> byte \<times> byte list \<Rightarrow> byte \<times> byte list" where
  "quantityLoop hexStringToByte hexQuantity i (crc, buffer_array) =
     (if i < length hexQuantity
      then (let b = hexStringToByte hexQuantity i
            in quantityLoop hexStringToByte hexQuantity (i + 2)
                 (crc_array ! unat (crc XOR b), buffer_array @ [b]))
      else (crc, buffer_array))"
  by pat_completeness auto
termination
  by (relation "measure (\<lambda>(h, hexQuantity, i, s). length hexQuantity - i)") auto

declare quantityLoop.simps [simp del]

definition sendPresetFrame ::
  "(real \<Rightarrow> string) \<Rightarrow> (string \<Rightarrow> nat \<Rightarrow> byte) \<Rightarrow> real \<Rightarrow> byte list" where
  "sendPresetFrame doubleToHex hexStringToByte quantity =
     (let (crc, buffer_array) = precursorLoop volumePrecursor (0, []);
          hexQuantity = doubleToHex quantity;
          (crc, buffer_array) = quantityLoop hexStringToByte hexQuantity 0 (crc, buffer_array)
      in buffer_array @ [crc])"

definition sendPreset ::
  "(real \<Rightarrow> string) \<Rightarrow> (string \<Rightarrow> nat \<Rightarrow> byte) \<Rightarrow> real \<Rightarrow> connection \<Rightarrow> connection" where
  "sendPreset doubleToHex hexStringToByte quantity conn =
     connection_write (sendPresetFrame doubleToHex hexStringToByte quantity) conn"

text \<open>
  The CRC-8 of the specification: starting from 0, each byte replaces the running value by the
  table entry at the running value XOR the byte.
\<close>

definition crc8 :: "byte list \<Rightarrow> byte" where
  "crc8 bytes = foldl (\<lambda>crc b. crc_array ! unat (crc XOR b)) 0 bytes"

text \<open>The bytes of the quantity's hexadecimal representation: one per two characters.\<close>

definition quantityBytes :: "(string \<Rightarrow> nat \<Rightarrow> byte) \<Rightarrow> string \<Rightarrow> byte list" where
  "quantityBytes hexStringToByte hexQuantity =
     map (\<lambda>k. hexStringToByte hexQuantity (2 * k)) [0 ..< (length hexQuantity + 1) div 2]"

section \<open>TCS3000: status and order completion\<close>

text \<open>\<open>String.prototype.slice(start, end)\<close> with its negative indices counted from the end.\<close>

definition js_slice :: "int \<Rightarrow> int \<Rightarrow> string \<Rightarrow> string" where
  "js_slice start fin s =
     (let len = int (length s);
          from = (if start < 0 then max (len + start) 0 else min start len);
          to = (if fin < 0 then max (len + fin) 0 else min fin len)
      in take (nat (to - from)) (drop (nat from) s))"

definition statusMap :: "(string \<times> string) list" where
  "statusMap =
     [(''00'', ''ERROR''),
      (''01'', ''IDLE''),
      (''02'', ''ACTIVE''),
      (''03'', ''AIR (Air detected)''),
      (''04'', ''PAUSED''),
      (''05'', ''STOPPED''),
      (''06'', ''TCKT_PENDING''),
      (''07'', ''PRINTING'')]"

text \<open>The status object; \<open>Map.get\<close> of a missing key is \<open>undefined\<close>, here \<open>None\<close>.\<close>

record TCS3000Status =
  status :: "string option"

definition TCS3000_processStatus :: "string \<Rightarrow> TCS3000Status" where
  "TCS3000_processStatus res =
     (let statusBit = js_slice 16 (- 2) res
      in \<lparr>status = map_of statusMap statusBit\<rparr>)"

text \<open>\<open>if (status.status)\<close>: \<open>undefined\<close> and the empty string are falsy.\<close>

definition truthy :: "string option \<Rightarrow> bool" where
  "truthy v = (case v of None \<Rightarrow> False | Some s \<Rightarrow> s \<noteq> [])"

definition TCS3000_isOnline :: "string \<Rightarrow> bool" where
  "TCS3000_isOnline res = (if truthy (status (TCS3000_processStatus res)) then True else False)"

text \<open>\<open>hexToNumber\<close> belongs to \<open>BaseDispenser\<close> and is a parameter.\<close>

definition TCS3000_processReadSale :: "(string \<Rightarrow> number) \<Rightarrow> string \<Rightarrow> number" where
  "TCS3000_processReadSale hexToNumber res = hexToNumber (js_slice 16 (- 2) res)"

definition TCS3000_isOrderComplete ::
  "(string \<Rightarrow> number) \<Rightarrow> (number \<Rightarrow> nat \<Rightarrow> number) \<Rightarrow> string \<Rightarrow> number \<Rightarrow> OrderProgress" where
  "TCS3000_isOrderComplete hexToNumber toFixedNumber res quantity =
     (let readsale = TCS3000_processReadSale hexToNumber res
      in if js_gt readsale (js_sub quantity (Finite 1))
         then \<lparr>orderStatus = True,
               percentage = toFixedNumber (js_mul (js_div readsale quantity) (Finite 100)) 2,
               dispensedQty = toFixedNumber readsale 2\<rparr>
         else \<lparr>orderStatus = False,
               percentage = toFixedNumber (js_mul (js_div readsale quantity) (Finite 100)) 2,
               dispensedQty = toFixedNumber readsale 2\<rparr>)"

text \<open>
  Modelled from the spec: \<open>BaseDispenser.hexToNumber\<close> is not among the sources. The
  specification says only that telemetry values are read from fixed offsets of the hex-encoded
  reply; this reading takes the hexadecimal digits as an unsigned integer and gives the Number
  nearest to it. The theorems below hold for every \<open>hexToNumber\<close>; this one only instantiates
  them at a concrete reply.
\<close>

fun hexDigitsValue :: "string \<Rightarrow> nat \<Rightarrow> nat" where
  "hexDigitsValue [] acc = acc"
| "hexDigitsValue (c # cs) acc = hexDigitsValue cs (16 * acc + hexDigitValue c)"

definition hexToNumber_spec :: "string \<Rightarrow> number" where
  "hexToNumber_spec h = roundToDouble False (real (hexDigitsValue h 0))"

section \<open>Neogi: \<open>dispenserResponse\<close> on the event loop\<close>

text \<open>
  \<open>dispenserResponse\<close> creates a promise, arms a timer and registers a single-shot \<open>data\<close>
  listener on \<open>innerByteTimeoutParser\<close>. Each call is identified by the position of its record
  in \<open>responses\<close>; the record holds what the closures of that call share: the argument
  \<open>timeoutMs\<close>, the timer (the milliseconds left while it is armed) and every invocation of
  \<open>resolve\<close> and \<open>reject\<close>, in order. \<open>listeners\<close> is the listener array of the parser.
  \<open>timeoutMs\<close> is an integer number of milliseconds, of either sign.
\<close>

datatype settlement = Resolved string | Rejected string

record pendingResponse =
  timeoutMs :: int
  timer :: "nat option"
  settlements :: "settlement list"

record parserState =
  listeners :: "nat list"
  responses :: "pendingResponse list"

definition updateResponse ::
  "nat \<Rightarrow> (pendingResponse \<Rightarrow> pendingResponse) \<Rightarrow> parserState \<Rightarrow> parserState" where
  "updateResponse h f s = s\<lparr>responses := (responses s)[h := f (responses s ! h)]\<rparr>"

definition resolve :: "nat \<Rightarrow> string \<Rightarrow> parserState \<Rightarrow> parserState" where
  "resolve h v = updateResponse h (\<lambda>p. p\<lparr>settlements := settlements p @ [Resolved v]\<rparr>)"

definition reject :: "nat \<Rightarrow> string \<Rightarrow> parserState \<Rightarrow> parserState" where
  "reject h msg = updateResponse h (\<lambda>p. p\<lparr>settlements := settlements p @ [Rejected msg]\<rparr>)"

definition clearTimeout :: "nat \<Rightarrow> parserState \<Rightarrow> parserState" where
  "clearTimeout h = updateResponse h (\<lambda>p. p\<lparr>timer := None\<rparr>)"

definition removeListener :: "nat \<Rightarrow> parserState \<Rightarrow> parserState" where
  "removeListener h s = s\<lparr>listeners := remove1 h (listeners s)\<rparr>"

text \<open>\<open>data.toString('hex')\<close>: two lower-case hexadecimal digits per byte.\<close>

definition hexDigit :: "nat \<Rightarrow> char" where
  "hexDigit d = ''0123456789abcdef'' ! d"

definition toHex :: "byte list \<Rightarrow> string" where
  "toHex bytes = concat (map (\<lambda>b. [hexDigit (unat b div 16), hexDigit (unat b mod 16)]) bytes)"

text \<open>The closure \<open>handler\<close>: \<open>clearTimeout(timer)\<close>, then \<open>resolve(data.toString('hex'))\<close>.\<close>

definition handler :: "nat \<Rightarrow> byte list \<Rightarrow> parserState \<Rightarrow> parserState" where
  "handler h d s = resolve h (toHex d) (clearTimeout h s)"

text \<open>
  \<open>${timeoutMs}\<close> in a template literal: for an integer between \<open>-(2^53 - 1)\<close> and
  \<open>2^53 - 1\<close>, the range in which every integer is a Number, the string of the Number is its
  decimal digits, after a minus sign for a negative one.
\<close>

definition intToString :: "int \<Rightarrow> string" where
  "intToString n = (if n < 0 then ''-'' else []) @ toString10 (nat \<bar>n\<bar>)"

text \<open>
  The timer's callback: \<open>removeListener('data', handler)\<close>, then
  \<open>reject(new Error(`Dispenser response timed out after ${timeoutMs}ms`))\<close>.
\<close>

definition timerCallback :: "nat \<Rightarrow> parserState \<Rightarrow> parserState" where
  "timerCallback h s =
     reject h (''Dispenser response timed out after '' @ intToString (timeoutMs (responses s ! h))
                 @ ''ms'')
       (removeListener h s)"

text \<open>
  The delay \<open>setTimeout\<close> arms a timer with: Node replaces a delay that is not between 1 and
  \<open>TIMEOUT_MAX = 2^31 - 1\<close> by 1.
\<close>

definition setTimeoutDelay :: "int \<Rightarrow> nat" where
  "setTimeoutDelay after = (if 1 \<le> after \<and> after \<le> 2147483647 then nat after else 1)"

text \<open>
  The body of \<open>dispenserResponse(timeoutMs = 20000)\<close>: \<open>setTimeout(..., timeoutMs)\<close> arms the
  timer, then \<open>once('data', handler)\<close> appends the handler to the listener array.
\<close>

definition dispenserResponse :: "int option \<Rightarrow> parserState \<Rightarrow> parserState" where
  "dispenserResponse timeoutArg s =
     (let ms = (case timeoutArg of None \<Rightarrow> 20000 | Some t \<Rightarrow> t);
          h = length (responses s);
          armed = s\<lparr>responses := responses s @
                    [\<lparr>timeoutMs = ms, timer = Some (setTimeoutDelay ms), settlements = []\<rparr>]\<rparr>
      in armed\<lparr>listeners := listeners armed @ [h]\<rparr>)"

text \<open>
  The runtime. A listener registered with \<open>once\<close> removes itself and then runs; \<open>emit('data', d)\<close>
  runs the listeners that were attached when it started. A millisecond passing advances every
  armed timer; a timer with at most one millisecond left fires: it is no longer armed and its
  callback runs.
\<close>

definition onceWrapper :: "byte list \<Rightarrow> nat \<Rightarrow> parserState \<Rightarrow> parserState" where
  "onceWrapper d h s = handler h d (removeListener h s)"

definition emitData :: "byte list \<Rightarrow> parserState \<Rightarrow> parserState" where
  "emitData d s = fold (onceWrapper d) (listeners s) s"

definition advanceTimer :: "nat \<Rightarrow> parserState \<Rightarrow> parserState" where
  "advanceTimer h s =
     (case timer (responses s ! h) of
        None \<Rightarrow> s
      | Some r \<Rightarrow>
          if r \<le> 1 then timerCallback h (updateResponse h (\<lambda>p. p\<lparr>timer := None\<rparr>) s)
          else updateResponse h (\<lambda>p. p\<lparr>timer := Some (r - 1)\<rparr>) s)"

definition tick :: "parserState \<Rightarrow> parserState" where
  "tick s = fold advanceTimer [0 ..< length (responses s)] s"

text \<open>What the event loop can do next: a new call, a \<open>data\<close> event, or a millisecond passing.\<close>

datatype event = Call "int option" | Data "byte list" | Tick

fun step :: "event \<Rightarrow> parserState \<Rightarrow> parserState" where
  "step (Call timeoutArg) s = dispenserResponse timeoutArg s"
| "step (Data d) s = emitData d s"
| "step Tick s = tick s"

definition run :: "event list \<Rightarrow> parserState \<Rightarrow> parserState" where
  "run evs s = fold step evs s"

definition initialParser :: parserState where
  "initialParser = \<lparr>listeners = [], responses = []\<rparr>"

text \<open>Every attached listener is the handler of an earlier call.\<close>

definition wellFormed :: "parserState \<Rightarrow> bool" where
  "wellFormed s = list_all (\<lambda>h. h < length (responses s)) (listeners s)"

text \<open>
  The effect of one millisecond on what a call sees of the state: its own record and the number
  of times its handler is attached.
\<close>

definition tickView :: "pendingResponse \<times> nat \<Rightarrow> pendingResponse \<times> nat" where
  "tickView = (\<lambda>(p, k).
     case timer p of
       None \<Rightarrow> (p, k)
     | Some r \<Rightarrow>
         if r \<le> 1
         then (p\<lparr>timer := None,
                 settlements := settlements p @
                   [Rejected (''Dispenser response timed out after '' @ intToString (timeoutMs p)
                                @ ''ms'')]\<rparr>,
               k - 1)
         else (p\<lparr>timer := Some (r - 1)\<rparr>, k))"

text \<open>
  What a call with argument \<open>ms\<close> and \<open>r\<close> milliseconds left on its timer is owed by the
  events that follow: the first \<open>data\<close> event resolves it with the hex text of the data,
  unless the timer runs out before; then it is rejected with the message that names \<open>ms\<close>.
\<close>

fun firstOutcome :: "int \<Rightarrow> nat \<Rightarrow> event list \<Rightarrow> settlement option" where
  "firstOutcome ms r [] = None"
| "firstOutcome ms r (Data d # evs) = Some (Resolved (toHex d))"
| "firstOutcome ms r (Tick # evs) =
     (if r \<le> 1
      then Some (Rejected (''Dispenser response timed out after '' @ intToString ms @ ''ms''))
      else firstOutcome ms (r - 1) evs)"
| "firstOutcome ms r (Call timeoutArg # evs) = firstOutcome ms r evs"

section \<open>The decimal checksum is the two-digit sum modulo 100\<close>

lemma sumCharCodes_sum_list: "sumCharCodes cs acc = acc + sum_list (map charCodeAt cs)"
  by (induction cs arbitrary: acc) simp_all

lemma toString10_one_digit: "n < 10 \<Longrightarrow> toString10 n = [digit_char n]"
  by (simp add: toString10.simps)

lemma toString10_two_digits:
  assumes "10 \<le> n" and "n < 100"
  shows "toString10 n = [digit_char (n div 10), digit_char (n mod 10)]"
proof -
  from assms have "n div 10 < 10" by simp
  then have "toString10 (n div 10) = [digit_char (n div 10)]"
    by (rule toString10_one_digit)
  with assms show ?thesis
    by (subst toString10.simps) simp
qed

lemma digit_char_0: "digit_char 0 = CHR ''0''"
  by (simp add: digit_char_def)

lemma pad_two_digits:
  assumes "n < 100"
  shows "padStart 2 (CHR ''0'') (toString10 n) = [digit_char (n div 10), digit_char (n mod 10)]"
proof (cases "n < 10")
  case True
  then show ?thesis
    by (simp add: toString10_one_digit padStart_def digit_char_0)
next
  case False
  with assms show ?thesis
    by (simp add: toString10_two_digits padStart_def)
qed

lemma isDigit_digit_char: "d < 10 \<Longrightarrow> isDigit (digit_char d)"
proof -
  assume "d < 10"
  then have "d \<in> {0, 1, 2, 3, 4, 5, 6, 7, 8, 9}" by auto
  then show ?thesis
    by (auto simp: digit_char_def isDigit_def charCodeAt_def)
qed

text \<open>
  C4. For every input string, \<open>calculateChecksum\<close> returns the two-character decimal string
  of the sum of the character codes modulo 100, left-padded with \<open>0\<close>: it equals the
  specification's \<open>decimalChecksum\<close>, has length 2 and consists of decimal digits. The function
  is total: the equation holds for every string, with no side condition.
\<close>

theorem calculateChecksum_decimal:
  "calculateChecksum text = decimalChecksum text
   \<and> length (calculateChecksum text) = 2
   \<and> isDigit (calculateChecksum text ! 0) \<and> isDigit (calculateChecksum text ! 1)"
proof -
  let ?n = "sum_list (map charCodeAt text) mod 100"
  have n: "?n < 100" by simp
  have eq: "calculateChecksum text = [digit_char (?n div 10), digit_char (?n mod 10)]"
    unfolding calculateChecksum_def sumCharCodes_sum_list
    using pad_two_digits [OF n] by simp
  have "?n div 10 < 10" by simp
  moreover have "?n mod 10 < 10" by simp
  ultimately show ?thesis
    unfolding eq decimalChecksum_def Let_def
    by (simp add: isDigit_digit_char)
qed

theorem calculateChecksum_decimal_witness:
  "calculateChecksum ''VT0000004142.02#'' = ''40'' \<and> decimalChecksum ''VT0000004142.02#'' = ''40''"
  using calculateChecksum_decimal [of "''VT0000004142.02#''"]
  by (simp add: decimalChecksum_def charCodeAt_def digit_char_def)

section \<open>TCS3000: the preset frame and the shared status frame\<close>

lemma precursorLoop_foldl:
  "precursorLoop bs (crc, buf) =
     (foldl (\<lambda>crc b. crc_array ! unat (crc XOR b)) crc bs, buf @ bs)"
  by (induction bs arbitrary: crc buf) simp_all

lemma even_positions_step:
  assumes "i < n"
  shows "map (\<lambda>k. i + 2 * k) [0 ..< (n - i + 1) div 2]
         = i # map (\<lambda>k. (i + 2) + 2 * k) [0 ..< (n - (i + 2) + 1) div 2]"
proof -
  from assms have "(n - i + 1) div 2 = Suc ((n - (i + 2) + 1) div 2)"
    by arith
  then show ?thesis
    by (simp add: upt_conv_Cons map_Suc_upt [symmetric] del: upt_Suc)
qed

lemma quantityLoop_foldl:
  "quantityLoop h hq i s =
     (foldl (\<lambda>crc b. crc_array ! unat (crc XOR b)) (fst s)
        (map (\<lambda>k. h hq (i + 2 * k)) [0 ..< (length hq - i + 1) div 2]),
      snd s @ map (\<lambda>k. h hq (i + 2 * k)) [0 ..< (length hq - i + 1) div 2])"
proof (induction h hq i s rule: quantityLoop.induct)
  case (1 h hq i crc buf)
  define qs where "qs = map (\<lambda>k. h hq (i + 2 * k)) [0 ..< (length hq - i + 1) div 2]"
  define qs' where "qs' = map (\<lambda>k. h hq ((i + 2) + 2 * k)) [0 ..< (length hq - (i + 2) + 1) div 2]"
  show ?case
  proof (cases "i < length hq")
    case True
    have "map (h hq) (map (\<lambda>k. i + 2 * k) [0 ..< (length hq - i + 1) div 2])
          = map (h hq) (i # map (\<lambda>k. (i + 2) + 2 * k) [0 ..< (length hq - (i + 2) + 1) div 2])"
      by (rule arg_cong [OF even_positions_step [OF True]])
    then have split: "qs = h hq i # qs'"
      unfolding qs_def qs'_def by (simp only: list.map map_map comp_def)
    have "quantityLoop h hq i (crc, buf)
          = quantityLoop h hq (i + 2) (crc_array ! unat (crc XOR h hq i), buf @ [h hq i])"
      using True by (subst quantityLoop.simps) (simp add: Let_def)
    also have "\<dots> = (foldl (\<lambda>crc b. crc_array ! unat (crc XOR b))
                         (crc_array ! unat (crc XOR h hq i)) qs', (buf @ [h hq i]) @ qs')"
      using "1.IH" [OF True refl] unfolding qs'_def by (simp only: fst_conv snd_conv)
    also have "\<dots> = (foldl (\<lambda>crc b. crc_array ! unat (crc XOR b)) crc qs, buf @ qs)"
      unfolding split by simp
    finally show ?thesis
      unfolding qs_def by (simp only: fst_conv snd_conv)
  next
    case False
    then have "(length hq - i + 1) div 2 = 0" by simp
    with False show ?thesis
      by (subst quantityLoop.simps) simp
  qed
qed

text \<open>
  C9. For every quantity, the frame \<open>sendPreset\<close> writes is the preset-volume precursor
  \<open>7e 01 00 20 38 0b 03 03 f7\<close>, then the bytes of the quantity's hexadecimal representation,
  then exactly one CRC-8 byte: the fold \<open>crc = crc_array[crc XOR byte]\<close> from 0 over the precursor
  bytes and then over the quantity bytes.
\<close>

theorem sendPreset_frame_layout:
  "sendPresetFrame doubleToHex hexStringToByte quantity
     = volumePrecursor @ quantityBytes hexStringToByte (doubleToHex quantity)
       @ [crc8 (volumePrecursor @ quantityBytes hexStringToByte (doubleToHex quantity))]
   \<and> volumePrecursor = [0x7e, 0x01, 0x00, 0x20, 0x38, 0x0b, 0x03, 0x03, 0xf7]
   \<and> written (sendPreset doubleToHex hexStringToByte quantity conn)
     = written conn @ [sendPresetFrame doubleToHex hexStringToByte quantity]"
proof -
  have "sendPresetFrame doubleToHex hexStringToByte quantity
     = volumePrecursor @ quantityBytes hexStringToByte (doubleToHex quantity)
       @ [crc8 (volumePrecursor @ quantityBytes hexStringToByte (doubleToHex quantity))]"
    by (simp add: sendPresetFrame_def precursorLoop_foldl quantityLoop_foldl
        quantityBytes_def crc8_def Let_def)
  moreover have "volumePrecursor = [0x7e, 0x01, 0x00, 0x20, 0x38, 0x0b, 0x03, 0x03, 0xf7]"
    by (simp add: volumePrecursor_def)
  moreover have "written (sendPreset doubleToHex hexStringToByte quantity conn)
     = written conn @ [sendPresetFrame doubleToHex hexStringToByte quantity]"
    by (simp add: sendPreset_def connection_write_def)
  ultimately show ?thesis by blast
qed

text \<open>The table and the fold reproduce the CRC byte baked into the static totalizer frame.\<close>

lemma crc8_totalizerBuffer: "crc8 (butlast totalizerBuffer) = last totalizerBuffer"
  by (simp add: crc8_def totalizerBuffer_def crc_array_def)

text \<open>
  C10. \<open>readPreset\<close>, \<open>readStatus\<close> and \<open>pumpStart\<close> of the TCS3000 all write the same frame
  \<open>7e 01 00 40 1f 00 83\<close>: the three commands leave the connection in the same state, so the
  encoding of commands is not injective.
\<close>

theorem shared_wire_frame:
  "written (readPreset conn) = written conn @ [[0x7e, 0x01, 0x00, 0x40, 0x1f, 0x00, 0x83]]
   \<and> written (TCS3000_readStatus conn) = written conn @ [[0x7e, 0x01, 0x00, 0x40, 0x1f, 0x00, 0x83]]
   \<and> written (pumpStart conn) = written conn @ [[0x7e, 0x01, 0x00, 0x40, 0x1f, 0x00, 0x83]]
   \<and> readPreset conn = TCS3000_readStatus conn
   \<and> TCS3000_readStatus conn = pumpStart conn"
  by (simp add: readPreset_def TCS3000_readStatus_def pumpStart_def connection_write_def
      read_preset_def read_status_def pump_start_def)

section \<open>Neogi: what parseResponse accepts\<close>

lemma matchChecksumTail_SomeD:
  assumes "matchChecksumTail cs = Some x"
  shows "\<exists>d1 d2 rest. cs = CHR ''#'' # d1 # d2 # CHR ''%'' # rest \<and> x = [d1, d2]"
  using assms by (cases cs rule: matchChecksumTail.cases) (auto split: if_splits)

lemma matchLazyContent_needs_hash:
  "matchLazyContent acc cs = Some m \<Longrightarrow> CHR ''#'' \<in> set cs"
proof (induction cs arbitrary: acc)
  case Nil
  then show ?case by simp
next
  case (Cons c cs)
  show ?case
  proof (cases "matchChecksumTail cs")
    case None
    with Cons.prems have "matchLazyContent (acc @ [c]) cs = Some m"
      by (simp split: if_splits)
    then show ?thesis using Cons.IH by simp
  next
    case (Some x)
    then show ?thesis using matchChecksumTail_SomeD by fastforce
  qed
qed

lemma matchDataReply_needs_second_hash:
  "matchDataReply s = Some m \<Longrightarrow> includesHashFrom1 s"
proof (induction s)
  case Nil
  then show ?case by simp
next
  case (Cons c cs)
  show ?case
  proof (cases "c = CHR ''#'' \<and> matchLazyContent [] cs \<noteq> None")
    case True
    then show ?thesis
      using matchLazyContent_needs_hash by (auto simp: includesHashFrom1_def)
  next
    case False
    with Cons.prems have "matchDataReply cs = Some m"
      by (auto split: if_splits option.splits)
    then have "includesHashFrom1 cs" by (rule Cons.IH)
    then show ?thesis
      by (auto simp: includesHashFrom1_def dest: in_set_dropD)
  qed
qed

lemma matchLazyContent_no_hash:
  "CHR ''#'' \<notin> set cs \<Longrightarrow> matchLazyContent acc cs = None"
  using matchLazyContent_needs_hash by (cases "matchLazyContent acc cs") auto

lemma matchDataReply_no_second_hash:
  "\<not> includesHashFrom1 s \<Longrightarrow> matchDataReply s = None"
  using matchDataReply_needs_second_hash by (cases "matchDataReply s") auto

lemma matchSimpleAck_no_hash:
  "CHR ''#'' \<notin> set cs \<Longrightarrow> matchSimpleAck cs = None"
  by (induction cs) auto

text \<open>
  C1. A reply accepted by the checksummed data-reply pattern \<open>#<CONTENT>#<2 digits>%\<close> yields
  a decoded reply, with \<open>isSimpleAck = false\<close>, exactly when the transmitted two digits equal the
  recomputed checksum, and otherwise the checksum-validation error and no reply. The first copy
  of \<open>Neogi.ts\<close> recomputes the checksum from the content and the closing \<open>#\<close>, the second
  from the content alone.
\<close>

theorem parseResponse_checksum_gate:
  assumes "matchDataReply (if startsWithHash res then res else hex2a res) = Some (content, cs)"
  shows "parseResponse hex2a res =
           (if calculateChecksum (content @ ''#'') = cs
            then Inr \<lparr>command = take 2 content, data = drop 2 content,
                      checksum = Some cs, isSimpleAck = False\<rparr>
            else Inl (ChecksumValidationFailed (calculateChecksum (content @ ''#'')) cs content))
         \<and> parseResponse2 hex2a res =
           (if calculateChecksum content = cs
            then Inr \<lparr>command = take 2 content, data = drop 2 content,
                      checksum = Some cs, isSimpleAck = False\<rparr>
            else Inl (ChecksumValidationFailed (calculateChecksum content) cs content))"
proof -
  let ?ascii = "if startsWithHash res then res else hex2a res"
  have "includesHashFrom1 ?ascii"
    using assms by (rule matchDataReply_needs_second_hash)
  then have "parseResponseWith w hex2a res = parseDataReply w ?ascii" for w
    by (simp add: parseResponseWith_def Let_def)
  then show ?thesis
    using assms by (simp add: parseResponse_def parseResponse2_def parseDataReply_def Let_def)
qed

lemmas char_class_defs = isDigit_def isUpperOrDigit_def isLineTerminator_def charCodeAt_def

theorem parseResponse_checksum_gate_witness:
  "matchDataReply (if startsWithHash ''#VT0000004142.02#40%'' then ''#VT0000004142.02#40%''
                   else hex2a_spec ''#VT0000004142.02#40%'') = Some (''VT0000004142.02'', ''40'')
   \<and> parseResponse hex2a_spec ''#VT0000004142.02#40%''
       = Inr \<lparr>command = ''VT'', data = ''0000004142.02'', checksum = Some ''40'', isSimpleAck = False\<rparr>
   \<and> parseResponse2 hex2a_spec ''#VT0000004142.02#40%''
       = Inl (ChecksumValidationFailed ''05'' ''40'' ''VT0000004142.02'')"
proof -
  have m: "matchDataReply (if startsWithHash ''#VT0000004142.02#40%'' then ''#VT0000004142.02#40%''
                   else hex2a_spec ''#VT0000004142.02#40%'') = Some (''VT0000004142.02'', ''40'')"
    by (simp add: startsWithHash_def char_class_defs)
  have c1: "calculateChecksum ''VT0000004142.02#'' = ''40''"
    by (simp add: calculateChecksum_def charCodeAt_def padStart_def toString10.simps digit_char_def)
  have c2: "calculateChecksum ''VT0000004142.02'' = ''05''"
    by (simp add: calculateChecksum_def charCodeAt_def padStart_def toString10.simps digit_char_def)
  show ?thesis
    using parseResponse_checksum_gate
      [of "''#VT0000004142.02#40%''" hex2a_spec "''VT0000004142.02''" "''40''", OF m] m c1 c2
    by simp
qed

text \<open>
  C8, as amended. For a reply with no \<open>#\<close> after position 0, \<open>parseResponse\<close> returns a simple
  acknowledgement when the reply matches \<open>#<TOKEN>%\<close>, \<open>TOKEN\<close> being a non-empty run of
  \<open>[A-Z0-9]\<close>: the command is the first two characters of the token (the whole token if it
  is shorter), the data the rest, and no checksum is validated (both copies of the file agree,
  and no checksum error can come out). A reply that does not match is rejected with the
  invalid-format error.
\<close>

theorem parseResponse_simple_ack:
  assumes "ascii = (if startsWithHash res then res else hex2a res)"
    and "\<not> includesHashFrom1 ascii"
    and "token = takeWhile isUpperOrDigit (drop 1 ascii)"
  shows "parseResponse hex2a res =
           (if take 1 ascii = ''#'' \<and> token \<noteq> [] \<and>
               take 1 (dropWhile isUpperOrDigit (drop 1 ascii)) = ''%''
            then Inr \<lparr>command = (if length token < 2 then token else take 2 token),
                      data = drop 2 token, checksum = None, isSimpleAck = True\<rparr>
            else Inl (InvalidResponseFormat ascii))
         \<and> parseResponse2 hex2a res = parseResponse hex2a res"
proof -
  have noData: "parseDataReply w ascii = Inl (InvalidResponseFormat ascii)" for w
    using assms(2) by (simp add: parseDataReply_def matchDataReply_no_second_hash)
  have ack: "matchSimpleAck ascii =
               (if take 1 ascii = ''#'' \<and> token \<noteq> [] \<and>
                   take 1 (dropWhile isUpperOrDigit (drop 1 ascii)) = ''%''
                then Some token else None)"
  proof (cases ascii)
    case Nil
    then show ?thesis by simp
  next
    case (Cons c cs)
    with assms(2) have "CHR ''#'' \<notin> set cs"
      by (simp add: includesHashFrom1_def)
    then have "matchSimpleAck cs = None" by (rule matchSimpleAck_no_hash)
    with Cons assms(3) show ?thesis by simp
  qed
  have "parseResponseWith w hex2a res =
           (if take 1 ascii = ''#'' \<and> token \<noteq> [] \<and>
               take 1 (dropWhile isUpperOrDigit (drop 1 ascii)) = ''%''
            then Inr \<lparr>command = (if length token < 2 then token else take 2 token),
                      data = drop 2 token, checksum = None, isSimpleAck = True\<rparr>
            else Inl (InvalidResponseFormat ascii))" for w
  proof -
    have "parseResponseWith w hex2a res =
            (case matchSimpleAck ascii of
               Some t \<Rightarrow> Inr (simpleAckReply t)
             | None \<Rightarrow> parseDataReply w ascii)"
      using assms(2) unfolding parseResponseWith_def assms(1) [symmetric] Let_def by simp
    also have "\<dots> =
           (if take 1 ascii = ''#'' \<and> token \<noteq> [] \<and>
               take 1 (dropWhile isUpperOrDigit (drop 1 ascii)) = ''%''
            then Inr (simpleAckReply token)
            else Inl (InvalidResponseFormat ascii))"
      unfolding ack noData by simp
    finally show ?thesis
      by (cases "length token < 2") (auto simp: simpleAckReply_def)
  qed
  then show ?thesis
    by (simp add: parseResponse_def parseResponse2_def)
qed

theorem parseResponse_simple_ack_witness:
  "\<not> includesHashFrom1 ''#STIDLE%''
   \<and> parseResponse hex2a_spec ''#STIDLE%''
       = Inr \<lparr>command = ''ST'', data = ''IDLE'', checksum = None, isSimpleAck = True\<rparr>
   \<and> parseResponse hex2a_spec ''#A%''
       = Inr \<lparr>command = ''A'', data = [], checksum = None, isSimpleAck = True\<rparr>"
  using parseResponse_simple_ack [of "''#STIDLE%''" "''#STIDLE%''" hex2a_spec "''STIDLE''"]
    parseResponse_simple_ack [of "''#A%''" "''#A%''" hex2a_spec "''A''"]
  by (simp add: startsWithHash_def includesHashFrom1_def char_class_defs)

text \<open>
  C8 as stated fails: \<open>#ok%\<close> has no second \<open>#\<close>, yet it is not returned as a simple
  acknowledgement, because the token pattern admits capitals and digits only.
\<close>

theorem parseResponse_simple_ack_counterexample:
  "\<not> includesHashFrom1 ''#ok%''
   \<and> parseResponse hex2a_spec ''#ok%'' = Inl (InvalidResponseFormat ''#ok%'')"
  by (simp add: parseResponse_def parseResponseWith_def parseDataReply_def startsWithHash_def
      includesHashFrom1_def char_class_defs)

section \<open>Status classification and \<open>isOnline\<close>\<close>

lemmas checksum_eval_defs = calculateChecksum_def charCodeAt_def padStart_def toString10.simps digit_char_def
lemmas parse_eval_defs = parseResponse_def parseResponseWith_def parseDataReply_def
  startsWithHash_def includesHashFrom1_def simpleAckReply_def

lemma statusMap_lookup:
  "map_of statusMap tok =
     (if tok = ''00'' then Some ''ERROR''
      else if tok = ''01'' then Some ''IDLE''
      else if tok = ''02'' then Some ''ACTIVE''
      else if tok = ''03'' then Some ''AIR (Air detected)''
      else if tok = ''04'' then Some ''PAUSED''
      else if tok = ''05'' then Some ''STOPPED''
      else if tok = ''06'' then Some ''TCKT_PENDING''
      else if tok = ''07'' then Some ''PRINTING''
      else None)"
  by (simp add: statusMap_def)

lemma js_slice_status_01: "js_slice 16 (- 2) ''7e0100401f0300000150'' = ''01''"
  by (simp add: js_slice_def)

lemma js_slice_status_09: "js_slice 16 (- 2) ''7e0100401f0300000992'' = ''09''"
  by (simp add: js_slice_def)

lemma parseResponse_STIDLE:
  "parseResponse hex2a_spec ''#STIDLE%''
     = Inr \<lparr>command = ''ST'', data = ''IDLE'', checksum = None, isSimpleAck = True\<rparr>"
  by (simp add: parse_eval_defs char_class_defs)

lemma parseResponse_STFOO:
  "parseResponse hex2a_spec ''#STFOO%''
     = Inr \<lparr>command = ''ST'', data = ''FOO'', checksum = None, isSimpleAck = True\<rparr>"
  by (simp add: parse_eval_defs char_class_defs)

lemma parseResponse_bad_checksum:
  "parseResponse hex2a_spec ''#STIDLE#00%''
     = Inl (ChecksumValidationFailed ''88'' ''00'' ''STIDLE'')"
proof -
  have "calculateChecksum ''STIDLE#'' = ''88''"
    by (simp add: checksum_eval_defs)
  then show ?thesis
    by (simp add: parse_eval_defs char_class_defs)
qed

lemma trim_IDLE: "trim ''IDLE'' = ''IDLE''" and trim_FOO: "trim ''FOO'' = ''FOO''"
  by (simp_all add: trim_def isWhiteSpace_def charCodeAt_def)

text \<open>
  C6, as amended. \<open>TCS3000.processStatus\<close> is total and never throws: each of the eight
  known codes \<open>00\<close> to \<open>07\<close> at \<open>res.slice(16, -2)\<close> maps to its documented state, and any
  other token gives an undefined status. \<open>Neogi.processStatus\<close> has no lookup table: it
  returns the trimmed data of the parsed reply as the state, and it throws whatever
  \<open>parseResponse\<close> throws.
\<close>

theorem processStatus_classification:
  "status (TCS3000_processStatus res) =
     (let tok = js_slice 16 (- 2) res
      in if tok = ''00'' then Some ''ERROR''
         else if tok = ''01'' then Some ''IDLE''
         else if tok = ''02'' then Some ''ACTIVE''
         else if tok = ''03'' then Some ''AIR (Air detected)''
         else if tok = ''04'' then Some ''PAUSED''
         else if tok = ''05'' then Some ''STOPPED''
         else if tok = ''06'' then Some ''TCKT_PENDING''
         else if tok = ''07'' then Some ''PRINTING''
         else None)
   \<and> (\<forall>e. parseResponse hex2a res = Inl e \<longrightarrow> Neogi_processStatus hex2a res = Inl e)
   \<and> (\<forall>p. parseResponse hex2a res = Inr p
       \<longrightarrow> Neogi_processStatus hex2a res = Inr \<lparr>state = trim (data p)\<rparr>)"
  by (simp add: TCS3000_processStatus_def Let_def statusMap_lookup Neogi_processStatus_def)

theorem processStatus_classification_witness:
  "status (TCS3000_processStatus ''7e0100401f0300000150'') = Some ''IDLE''
   \<and> parseResponse hex2a_spec ''#STIDLE%''
       = Inr \<lparr>command = ''ST'', data = ''IDLE'', checksum = None, isSimpleAck = True\<rparr>
   \<and> Neogi_processStatus hex2a_spec ''#STIDLE%'' = Inr \<lparr>state = ''IDLE''\<rparr>
   \<and> parseResponse hex2a_spec ''#STIDLE#00%''
       = Inl (ChecksumValidationFailed ''88'' ''00'' ''STIDLE'')
   \<and> Neogi_processStatus hex2a_spec ''#STIDLE#00%''
       = Inl (ChecksumValidationFailed ''88'' ''00'' ''STIDLE'')"
  using processStatus_classification [of "''7e0100401f0300000150''" hex2a_spec]
    processStatus_classification [of "''#STIDLE%''" hex2a_spec]
    processStatus_classification [of "''#STIDLE#00%''" hex2a_spec]
  by (simp add: js_slice_status_01 parseResponse_STIDLE parseResponse_bad_checksum trim_IDLE)

text \<open>
  C6 as stated fails: the unmapped TCS3000 code \<open>09\<close> gives an undefined status, not a state
  \<open>UNKNOWN\<close>; the Neogi token \<open>FOO\<close> is returned as it is; and a Neogi status reply with a
  wrong checksum makes \<open>processStatus\<close> throw.
\<close>

theorem processStatus_unknown_counterexample:
  "status (TCS3000_processStatus ''7e0100401f0300000992'') = None
   \<and> Neogi_processStatus hex2a_spec ''#STFOO%'' = Inr \<lparr>state = ''FOO''\<rparr>
   \<and> Neogi_processStatus hex2a_spec ''#STIDLE#00%''
       = Inl (ChecksumValidationFailed ''88'' ''00'' ''STIDLE'')"
  by (simp add: TCS3000_processStatus_def Let_def statusMap_lookup js_slice_status_09
      Neogi_processStatus_def parseResponse_STFOO parseResponse_bad_checksum trim_FOO)

text \<open>
  C7, as amended. \<open>Neogi.isOnline\<close> is true exactly when \<open>parseResponse\<close> succeeds, whatever
  the status token. \<open>TCS3000.isOnline\<close> is true exactly when the code at
  \<open>res.slice(16, -2)\<close> is one of the eight known codes.
\<close>

theorem isOnline_characterisation:
  "(Neogi_isOnline hex2a res \<longleftrightarrow> (\<exists>p. parseResponse hex2a res = Inr p))
   \<and> (TCS3000_isOnline res \<longleftrightarrow>
        js_slice 16 (- 2) res \<in> {''00'', ''01'', ''02'', ''03'', ''04'', ''05'', ''06'', ''07''})"
proof -
  have "Neogi_isOnline hex2a res \<longleftrightarrow> (\<exists>p. parseResponse hex2a res = Inr p)"
    by (cases "parseResponse hex2a res") (simp_all add: Neogi_isOnline_def Neogi_processStatus_def)
  moreover have "TCS3000_isOnline res \<longleftrightarrow>
        js_slice 16 (- 2) res \<in> {''00'', ''01'', ''02'', ''03'', ''04'', ''05'', ''06'', ''07''}"
    by (simp add: TCS3000_isOnline_def TCS3000_processStatus_def Let_def statusMap_lookup truthy_def)
  ultimately show ?thesis by blast
qed

theorem isOnline_characterisation_witness:
  "Neogi_isOnline hex2a_spec ''#STFOO%''
   \<and> \<not> Neogi_isOnline hex2a_spec ''#STIDLE#00%''
   \<and> TCS3000_isOnline ''7e0100401f0300000150''"
  using isOnline_characterisation [of hex2a_spec "''#STFOO%''"]
    isOnline_characterisation [of hex2a_spec "''#STIDLE#00%''"]
    isOnline_characterisation [of hex2a_spec "''7e0100401f0300000150''"]
  by (simp add: parseResponse_STFOO parseResponse_bad_checksum js_slice_status_01)

text \<open>
  C7 as stated fails for the TCS3000: the reply \<open>7e 01 00 40 1f 03 00 00 09 92\<close> is well formed
  (its last byte is the CRC-8 of the others) and carries the unrecognized code \<open>09\<close>, yet
  \<open>isOnline\<close> is false.
\<close>

theorem isOnline_unrecognized_counterexample:
  "crc8 [0x7e, 0x01, 0x00, 0x40, 0x1f, 0x03, 0x00, 0x00, 0x09] = 0x92
   \<and> js_slice 16 (- 2) ''7e0100401f0300000992'' = ''09''
   \<and> \<not> TCS3000_isOnline ''7e0100401f0300000992''"
  by (simp add: TCS3000_isOnline_def TCS3000_processStatus_def Let_def statusMap_lookup truthy_def
      js_slice_status_09 crc8_def crc_array_def)

section \<open>Neogi: the preset command does not survive \<open>parseResponse\<close>\<close>

lemma toString10_1050: "toString10 1050 = ''1050''"
  by (simp add: toString10.simps digit_char_def)

lemma toFixed2_10_5: "toFixed2 (21 / 2) = ''10.50''"
proof -
  have "\<lfloor>\<bar>21 / 2 :: real\<bar> * 100 + 1 / 2\<rfloor> = 1050" by simp
  then have n: "nat \<lfloor>\<bar>21 / 2 :: real\<bar> * 100 + 1 / 2\<rfloor> = 1050" by simp
  have m: "padStart 3 (CHR ''0'') ''1050'' = ''1050''"
    by (simp add: padStart_def)
  show ?thesis
    unfolding toFixed2_def n toString10_1050 m Let_def by simp
qed

lemma replicate_spaces: "replicate 10 (CHR '' '') = ''          ''"
  by (simp add: eval_nat_numeral)

lemma buildPresetCommand_10_5:
  "buildPresetCommand (21 / 2) None ''*'' = ''#SL0010.50$*          #97%''"
proof -
  have "calculateChecksum ''SL0010.50$*          '' = ''97''"
    by (simp add: checksum_eval_defs)
  moreover have "padStart 7 (CHR ''0'') ''10.50'' = ''0010.50''"
    by (simp add: padStart_def eval_nat_numeral)
  ultimately show ?thesis
    by (simp add: buildPresetCommand_def buildCommandWithChecksum_def toFixed2_10_5
        replicate_spaces)
qed

text \<open>
  C3. The round trip fails in the first copy of \<open>Neogi.ts\<close>: \<open>buildCommandWithChecksum\<close> sums the
  payload alone, \<open>parseResponse\<close> validates against the payload followed by \<open>#\<close>. For the
  preset of 10.50 litres the frame carries \<open>97\<close>, the parser expects \<open>32\<close> and throws.
\<close>

theorem preset_round_trip_fails:
  "buildPresetCommand (21 / 2) None ''*'' = ''#SL0010.50$*          #97%''
   \<and> parseResponse hex2a_spec (buildPresetCommand (21 / 2) None ''*'')
       = Inl (ChecksumValidationFailed ''32'' ''97'' ''SL0010.50$*          '')"
proof -
  have "calculateChecksum ''SL0010.50$*          #'' = ''32''"
    by (simp add: checksum_eval_defs)
  then show ?thesis
    unfolding buildPresetCommand_10_5
    by (simp add: parse_eval_defs char_class_defs)
qed

text \<open>The parser of the second copy, which sums the content alone, decodes the same frame.\<close>

lemma preset_round_trip_second_copy:
  "parseResponse2 hex2a_spec (buildPresetCommand (21 / 2) None ''*'')
     = Inr \<lparr>command = ''SL'', data = ''0010.50$*          '', checksum = Some ''97'',
            isSimpleAck = False\<rparr>"
proof -
  have "calculateChecksum ''SL0010.50$*          '' = ''97''"
    by (simp add: checksum_eval_defs)
  then show ?thesis
    unfolding buildPresetCommand_10_5
    by (simp add: parseResponse2_def parseResponseWith_def parseDataReply_def
      startsWithHash_def includesHashFrom1_def char_class_defs)
qed

section \<open>Order completion: the tie-break of each dispenser\<close>

text \<open>
  C5. For a decoded reading \<open>r\<close> and a target quantity \<open>q\<close>, the Neogi \<open>isOrderComplete\<close>
  reports \<open>status = (r >= q)\<close> and the TCS3000 one \<open>status = (r > q - 1)\<close>; both report
  \<open>percentage = toFixedNumber(r / q * 100, 2)\<close> and \<open>dispensedQty = toFixedNumber(r, 2)\<close>, the
  operators being those of binary64 Numbers.
\<close>

theorem isOrderComplete_tie_breaks:
  assumes "processRunningVolume parseFloat hex2a res = Inr \<lparr>volume = r\<rparr>"
    and "TCS3000_processReadSale hexToNumber res' = r'"
  shows "Neogi_isOrderComplete parseFloat toFixedNumber hex2a res quantity
           = Inr \<lparr>orderStatus = js_ge r quantity,
                   percentage = toFixedNumber (js_mul (js_div r quantity) (Finite 100)) 2,
                   dispensedQty = toFixedNumber r 2\<rparr>
         \<and> TCS3000_isOrderComplete hexToNumber toFixedNumber res' quantity
           = \<lparr>orderStatus = js_gt r' (js_sub quantity (Finite 1)),
              percentage = toFixedNumber (js_mul (js_div r' quantity) (Finite 100)) 2,
              dispensedQty = toFixedNumber r' 2\<rparr>"
  using assms
  by (simp add: Neogi_isOrderComplete_def TCS3000_isOrderComplete_def Let_def)

text \<open>On finite values the relational operators are those of the reals.\<close>

lemma js_compare_finite:
  "js_ge (Finite a) (Finite b) = (b \<le> a)"
  "js_gt (Finite a) (Finite b) = (b < a)"
  by (auto simp: js_ge_def js_gt_def js_le_def js_lt_def)

lemmas double_eval = roundToDouble_def roundHalfEven_def binaryExponent.simps Let_def

text \<open>The reading \<open>2.01\<close> of a running-volume reply; as a Number it is \<open>1131529406376837 / 2^49\<close>.\<close>

lemma parseFloat_2_01: "js_parseFloat ''0002.01'' = Finite (1131529406376837 / 562949953421312)"
  by (simp add: js_parseFloat_def parseUnsignedDecimal_def parseExponent_def isWhiteSpace_def
      isDigit_def charCodeAt_def double_eval)

lemma processRunningVolume_2_01:
  "processRunningVolume js_parseFloat hex2a_spec ''#RV0002.01#40%''
     = Inr \<lparr>volume = Finite (1131529406376837 / 562949953421312)\<rparr>"
proof -
  have "calculateChecksum ''RV0002.01#'' = ''40''"
    by (simp add: checksum_eval_defs)
  then have "parseResponse hex2a_spec ''#RV0002.01#40%''
     = Inr \<lparr>command = ''RV'', data = ''0002.01'', checksum = Some ''40'', isSimpleAck = False\<rparr>"
    by (simp add: parse_eval_defs char_class_defs)
  moreover have "trim ''0002.01'' = ''0002.01''"
    by (simp add: trim_def isWhiteSpace_def charCodeAt_def)
  ultimately show ?thesis
    by (simp add: processRunningVolume_def parseFloat_2_01)
qed

text \<open>The reading 41 of a read-sale reply.\<close>

lemma processReadSale_41:
  "TCS3000_processReadSale hexToNumber_spec ''7e0100402b030000292a'' = Finite 41"
proof -
  have "js_slice 16 (- 2) ''7e0100402b030000292a'' = ''29''"
    by (simp add: js_slice_def)
  moreover have "hexDigitsValue ''29'' 0 = 41"
    by (simp add: hexDigitValue_def charCodeAt_def)
  moreover have "roundToDouble False 41 = Finite 41"
    by (simp add: double_eval)
  ultimately show ?thesis
    by (simp add: TCS3000_processReadSale_def hexToNumber_spec_def)
qed

text \<open>
  In binary64, \<open>2.01 / 8 * 100\<close> is \<open>25.124999999999996\<close> and \<open>41 / 160 * 100\<close> is
  \<open>25.624999999999996\<close>, not \<open>25.125\<close> and \<open>25.625\<close>.
\<close>

lemma percentage_2_01_of_8:
  "js_mul (js_div (Finite (1131529406376837 / 562949953421312)) (Finite 8)) (Finite 100)
     = Finite (7072058789855231 / 281474976710656)"
proof -
  have "js_div (Finite (1131529406376837 / 562949953421312)) (Finite 8)
          = Finite (1131529406376837 / 4503599627370496)"
    by (simp add: double_eval)
  moreover have "js_mul (Finite (1131529406376837 / 4503599627370496)) (Finite 100)
          = Finite (7072058789855231 / 281474976710656)"
    by (simp add: double_eval)
  ultimately show ?thesis by simp
qed

lemma percentage_41_of_160:
  "js_mul (js_div (Finite 41) (Finite 160)) (Finite 100)
     = Finite (7212796278210559 / 281474976710656)"
proof -
  have "js_div (Finite 41) (Finite 160) = Finite (2308094809027379 / 9007199254740992)"
    by (simp add: double_eval)
  moreover have "js_mul (Finite (2308094809027379 / 9007199254740992)) (Finite 100)
          = Finite (7212796278210559 / 281474976710656)"
    by (simp add: double_eval)
  ultimately show ?thesis by simp
qed

text \<open>
  The product \<open>41 / 187 * 100\<close> lies halfway between two adjacent Numbers; it rounds to the one
  with the even significand, \<open>21.92513368983957\<close>.
\<close>

lemma percentage_41_of_187:
  "js_mul (js_div (Finite 41) (Finite 187)) (Finite 100)
     = Finite (1542844123681403 / 70368744177664)"
proof -
  have "js_div (Finite 41) (Finite 187) = Finite (493710119578049 / 2251799813685248)"
    by (simp add: double_eval)
  moreover have "js_mul (Finite (493710119578049 / 2251799813685248)) (Finite 100)
          = Finite (1542844123681403 / 70368744177664)"
    by (simp add: double_eval)
  ultimately show ?thesis by simp
qed

lemma toFixedNumber_spec_examples:
  "toFixedNumber_spec (Finite (7072058789855231 / 281474976710656)) 2
     = Finite (7070651414971679 / 281474976710656)"
  "toFixedNumber_spec (Finite (7212796278210559 / 281474976710656)) 2
     = Finite (7211388903327007 / 281474976710656)"
  "toFixedNumber_spec (Finite (1131529406376837 / 562949953421312)) 2
     = Finite (1131529406376837 / 562949953421312)"
  "toFixedNumber_spec (Finite 41) 2 = Finite 41"
  by (simp_all add: toFixedNumber_spec_def double_eval)

lemma tie_break_examples:
  "js_ge (Finite (1131529406376837 / 562949953421312)) (Finite 8) = False"
  "js_gt (Finite 41) (js_sub (Finite 160) (Finite 1)) = False"
  "js_gt (Finite 41) (js_sub (Finite 42) (Finite 1)) = False"
  "js_gt (Finite 41) (js_sub (Finite (83 / 2)) (Finite 1)) = True"
  "js_ge (Finite 41) (Finite (83 / 2)) = False"
  by (simp_all add: js_ge_def js_gt_def js_le_def js_lt_def double_eval)

theorem isOrderComplete_tie_breaks_witness:
  "processRunningVolume js_parseFloat hex2a_spec ''#RV0002.01#40%''
     = Inr \<lparr>volume = Finite (1131529406376837 / 562949953421312)\<rparr>
   \<and> TCS3000_processReadSale hexToNumber_spec ''7e0100402b030000292a'' = Finite 41
   \<and> Neogi_isOrderComplete js_parseFloat toFixedNumber_spec hex2a_spec ''#RV0002.01#40%'' (Finite 8)
      = Inr \<lparr>orderStatus = False,
              percentage = Finite (7070651414971679 / 281474976710656),
              dispensedQty = Finite (1131529406376837 / 562949953421312)\<rparr>
   \<and> TCS3000_isOrderComplete hexToNumber_spec toFixedNumber_spec ''7e0100402b030000292a'' (Finite 160)
      = \<lparr>orderStatus = False,
         percentage = Finite (7211388903327007 / 281474976710656),
         dispensedQty = Finite 41\<rparr>
   \<and> orderStatus (TCS3000_isOrderComplete hexToNumber_spec toFixedNumber_spec
         ''7e0100402b030000292a'' (Finite 42)) = False
   \<and> orderStatus (TCS3000_isOrderComplete hexToNumber_spec toFixedNumber_spec
         ''7e0100402b030000292a'' (Finite (83 / 2))) = True
   \<and> percentage (TCS3000_isOrderComplete hexToNumber_spec (\<lambda>x digits. x)
         ''7e0100402b030000292a'' (Finite 187)) = Finite (1542844123681403 / 70368744177664)"
proof -
  note at = isOrderComplete_tie_breaks [OF processRunningVolume_2_01 processReadSale_41,
      of toFixedNumber_spec]
  note evals = percentage_2_01_of_8 percentage_41_of_160 toFixedNumber_spec_examples
    tie_break_examples
  have neogi8: "Neogi_isOrderComplete js_parseFloat toFixedNumber_spec hex2a_spec
        ''#RV0002.01#40%'' (Finite 8)
      = Inr \<lparr>orderStatus = False,
              percentage = Finite (7070651414971679 / 281474976710656),
              dispensedQty = Finite (1131529406376837 / 562949953421312)\<rparr>"
    using at [of "Finite 8", THEN conjunct1] by (simp only: evals)
  have tcs160: "TCS3000_isOrderComplete hexToNumber_spec toFixedNumber_spec
        ''7e0100402b030000292a'' (Finite 160)
      = \<lparr>orderStatus = False,
         percentage = Finite (7211388903327007 / 281474976710656),
         dispensedQty = Finite 41\<rparr>"
    using at [of "Finite 160", THEN conjunct2] by (simp only: evals)
  have tcs42: "orderStatus (TCS3000_isOrderComplete hexToNumber_spec toFixedNumber_spec
         ''7e0100402b030000292a'' (Finite 42)) = False"
    using at [of "Finite 42", THEN conjunct2] by (simp only: evals OrderProgress.simps)
  have tcs41_5: "orderStatus (TCS3000_isOrderComplete hexToNumber_spec toFixedNumber_spec
         ''7e0100402b030000292a'' (Finite (83 / 2))) = True"
    using at [of "Finite (83 / 2)", THEN conjunct2] by (simp only: evals OrderProgress.simps)
  have tcs187: "percentage (TCS3000_isOrderComplete hexToNumber_spec (\<lambda>x digits. x)
         ''7e0100402b030000292a'' (Finite 187)) = Finite (1542844123681403 / 70368744177664)"
    using isOrderComplete_tie_breaks [OF processRunningVolume_2_01 processReadSale_41,
        of "\<lambda>x digits. x" "Finite 187", THEN conjunct2]
    by (simp only: percentage_41_of_187 OrderProgress.simps)
  from processRunningVolume_2_01 processReadSale_41 neogi8 tcs160 tcs42 tcs41_5 tcs187
  show ?thesis by (intro conjI)
qed

section \<open>Neogi: every call of dispenserResponse settles exactly once\<close>

lemma fold_tracks:
  assumes other: "\<And>x s. x \<noteq> h \<Longrightarrow> I s \<Longrightarrow> v (f x s) = v s \<and> I (f x s)"
    and self: "\<And>s. I s \<Longrightarrow> v (f h s) = g (v s) \<and> I (f h s)"
    and "I s"
  shows "v (fold f xs s) = (g ^^ count_list xs h) (v s) \<and> I (fold f xs s)"
  using \<open>I s\<close>
proof (induction xs arbitrary: s)
  case Nil
  then show ?case by simp
next
  case (Cons x xs)
  show ?case
  proof (cases "x = h")
    case True
    from self [OF Cons.prems] have 1: "v (f h s) = g (v s)" and 2: "I (f h s)" by simp_all
    from Cons.IH [OF 2] True 1 show ?thesis
      by (simp add: funpow_swap1)
  next
    case False
    from other [OF False Cons.prems] have 1: "v (f x s) = v s" and 2: "I (f x s)" by simp_all
    from Cons.IH [OF 2] False 1 show ?thesis by simp
  qed
qed

lemma count_list_remove1:
  "count_list (remove1 x xs) h = (if x = h then count_list xs h - 1 else count_list xs h)"
  by (induction xs) auto

lemma count_list_upt: "count_list [0 ..< n] h = (if h < n then 1 else 0)"
  by (induction n) auto

text \<open>What one call sees of the state: its own record and how often its handler is attached.\<close>

lemma updateResponse_other:
  "h' \<noteq> h \<Longrightarrow> responses (updateResponse h' f s) ! h = responses s ! h"
  by (simp add: updateResponse_def)

lemma updateResponse_self:
  "h < length (responses s) \<Longrightarrow> responses (updateResponse h f s) ! h = f (responses s ! h)"
  by (simp add: updateResponse_def)

lemma updateResponse_frame:
  "length (responses (updateResponse h' f s)) = length (responses s)"
  "listeners (updateResponse h' f s) = listeners s"
  by (simp_all add: updateResponse_def)

lemma removeListener_frame:
  "responses (removeListener h' s) = responses s"
  "count_list (listeners (removeListener h' s)) h
     = (if h' = h then count_list (listeners s) h - 1 else count_list (listeners s) h)"
  by (simp_all add: removeListener_def count_list_remove1)

lemmas response_frame = updateResponse_other updateResponse_self updateResponse_frame
  removeListener_frame

lemma onceWrapper_other:
  assumes "h' \<noteq> h" and "h < length (responses s)"
  shows "(responses (onceWrapper d h' s) ! h, count_list (listeners (onceWrapper d h' s)) h)
           = (responses s ! h, count_list (listeners s) h)
         \<and> h < length (responses (onceWrapper d h' s))"
  using assms
  by (simp add: onceWrapper_def handler_def resolve_def clearTimeout_def response_frame)

lemma onceWrapper_self:
  assumes "h < length (responses s)"
  shows "(responses (onceWrapper d h s) ! h, count_list (listeners (onceWrapper d h s)) h)
           = (\<lambda>(p, k). (p\<lparr>timer := None, settlements := settlements p @ [Resolved (toHex d)]\<rparr>, k - 1))
               (responses s ! h, count_list (listeners s) h)
         \<and> h < length (responses (onceWrapper d h s))"
  using assms
  by (simp add: onceWrapper_def handler_def resolve_def clearTimeout_def response_frame)

lemma emitData_view:
  assumes "h < length (responses s)"
  shows "(responses (emitData d s) ! h, count_list (listeners (emitData d s)) h)
           = ((\<lambda>(p, k). (p\<lparr>timer := None, settlements := settlements p @ [Resolved (toHex d)]\<rparr>, k - 1))
                ^^ count_list (listeners s) h) (responses s ! h, count_list (listeners s) h)
         \<and> h < length (responses (emitData d s))"
  unfolding emitData_def
  by (rule fold_tracks [where I = "\<lambda>s. h < length (responses s)"
        and v = "\<lambda>s. (responses s ! h, count_list (listeners s) h)"])
     (use assms onceWrapper_other onceWrapper_self in blast)+

lemma advanceTimer_other:
  assumes "h' \<noteq> h" and "h < length (responses s)"
  shows "(responses (advanceTimer h' s) ! h, count_list (listeners (advanceTimer h' s)) h)
           = (responses s ! h, count_list (listeners s) h)
         \<and> h < length (responses (advanceTimer h' s))"
  using assms
  by (simp add: advanceTimer_def timerCallback_def reject_def response_frame split: option.splits)

lemma advanceTimer_self:
  assumes "h < length (responses s)"
  shows "(responses (advanceTimer h s) ! h, count_list (listeners (advanceTimer h s)) h)
           = tickView (responses s ! h, count_list (listeners s) h)
         \<and> h < length (responses (advanceTimer h s))"
  using assms
  by (simp add: advanceTimer_def timerCallback_def reject_def response_frame tickView_def
      split: option.splits)

lemma tick_view:
  assumes "h < length (responses s)"
  shows "(responses (tick s) ! h, count_list (listeners (tick s)) h)
           = tickView (responses s ! h, count_list (listeners s) h)
         \<and> h < length (responses (tick s))"
proof -
  have "(responses (tick s) ! h, count_list (listeners (tick s)) h)
           = (tickView ^^ count_list [0 ..< length (responses s)] h)
               (responses s ! h, count_list (listeners s) h)
         \<and> h < length (responses (tick s))"
    unfolding tick_def
    by (rule fold_tracks [where I = "\<lambda>s. h < length (responses s)"
        and v = "\<lambda>s. (responses s ! h, count_list (listeners s) h)"])
       (use assms advanceTimer_other advanceTimer_self in blast)+
  with assms show ?thesis by (simp add: count_list_upt)
qed

lemma dispenserResponse_view:
  assumes "h < length (responses s)"
  shows "(responses (dispenserResponse a s) ! h, count_list (listeners (dispenserResponse a s)) h)
           = (responses s ! h, count_list (listeners s) h)
         \<and> h < length (responses (dispenserResponse a s))"
  using assms by (simp add: dispenserResponse_def Let_def nth_append)


lemma step_view_settled:
  assumes "h < length (responses s)"
    and "timer (responses s ! h) = None" and "count_list (listeners s) h = 0"
  shows "(responses (step e s) ! h, count_list (listeners (step e s)) h)
           = (responses s ! h, 0)
         \<and> h < length (responses (step e s))"
proof (cases e)
  case (Call a)
  with assms dispenserResponse_view [OF assms(1), of a] show ?thesis by simp
next
  case (Data d)
  with assms emitData_view [OF assms(1), of d] show ?thesis by simp
next
  case Tick
  with assms tick_view [OF assms(1)] show ?thesis by (simp add: tickView_def)
qed

lemma run_settled:
  assumes "h < length (responses s)"
    and "timer (responses s ! h) = None" and "count_list (listeners s) h = 0"
  shows "responses (run evs s) ! h = responses s ! h
         \<and> count_list (listeners (run evs s)) h = 0"
  using assms
proof (induction evs arbitrary: s)
  case Nil
  then show ?case by (simp add: run_def)
next
  case (Cons e evs)
  from step_view_settled [OF Cons.prems, of e]
  have 1: "responses (step e s) ! h = responses s ! h"
    and 2: "count_list (listeners (step e s)) h = 0"
    and 3: "h < length (responses (step e s))" by simp_all
  from Cons.IH [OF 3 _ 2] 1 Cons.prems(2) show ?case
    by (simp add: run_def)
qed

lemma run_pending:
  assumes "h < length (responses s)"
    and "responses s ! h = \<lparr>timeoutMs = ms, timer = Some r, settlements = []\<rparr>"
    and "count_list (listeners s) h = 1"
  shows "settlements (responses (run evs s) ! h)
           = (case firstOutcome ms r evs of None \<Rightarrow> [] | Some out \<Rightarrow> [out])
         \<and> count_list (listeners (run evs s)) h
           = (case firstOutcome ms r evs of None \<Rightarrow> 1 | Some out \<Rightarrow> 0)
         \<and> (timer (responses (run evs s) ! h) = None \<longleftrightarrow> firstOutcome ms r evs \<noteq> None)"
  using assms
proof (induction evs arbitrary: s r)
  case Nil
  then show ?case by (simp add: run_def)
next
  case (Cons e evs)
  note lt = Cons.prems(1) and rec = Cons.prems(2) and cnt = Cons.prems(3)
  have unfold: "run (e # evs) s = run evs (step e s)"
    by (simp add: run_def)
  show ?case
  proof (cases e)
    case (Call a)
    from dispenserResponse_view [OF lt, of a] rec cnt
    have "h < length (responses (step e s))"
      and "responses (step e s) ! h = \<lparr>timeoutMs = ms, timer = Some r, settlements = []\<rparr>"
      and "count_list (listeners (step e s)) h = 1"
      using Call by simp_all
    from Cons.IH [OF this] show ?thesis
      unfolding unfold using Call by simp
  next
    case (Data d)
    from emitData_view [OF lt, of d] rec cnt
    have 1: "h < length (responses (step e s))"
      and 2: "responses (step e s) ! h
               = \<lparr>timeoutMs = ms, timer = None, settlements = [Resolved (toHex d)]\<rparr>"
      and 3: "count_list (listeners (step e s)) h = 0"
      using Data by simp_all
    from 2 have "timer (responses (step e s) ! h) = None" by simp
    from run_settled [OF 1 this 3, of evs] 2 show ?thesis
      unfolding unfold using Data by simp
  next
    case Tick
    show ?thesis
    proof (cases "r \<le> 1")
      case True
      from tick_view [OF lt] rec cnt True
      have 1: "h < length (responses (step e s))"
        and 2: "responses (step e s) ! h
                 = \<lparr>timeoutMs = ms, timer = None, settlements = [Rejected (''Dispenser response timed out after '' @ intToString ms @ ''ms'')]\<rparr>"
        and 3: "count_list (listeners (step e s)) h = 0"
        using Tick by (simp_all add: tickView_def)
      from 2 have "timer (responses (step e s) ! h) = None" by simp
      from run_settled [OF 1 this 3, of evs] 2 True show ?thesis
        unfolding unfold using Tick by simp
    next
      case False
      from tick_view [OF lt] rec cnt False
      have "h < length (responses (step e s))"
        and "responses (step e s) ! h = \<lparr>timeoutMs = ms, timer = Some (r - 1), settlements = []\<rparr>"
        and "count_list (listeners (step e s)) h = 1"
        using Tick by (simp_all add: tickView_def)
      from Cons.IH [OF this] False show ?thesis
        unfolding unfold using Tick by simp
    qed
  qed
qed

lemma firstOutcome_undecided:
  assumes "firstOutcome ms r evs = None"
  shows "(\<forall>d. Data d \<notin> set evs) \<and> count_list evs Tick < max 1 r"
  using assms
proof (induction ms r evs rule: firstOutcome.induct)
  case (3 ms r evs)
  then show ?case by (auto split: if_splits)
qed auto


lemma firstOutcome_shape:
  assumes "firstOutcome ms r evs = Some out"
  shows "(\<exists>d. Data d \<in> set evs \<and> out = Resolved (toHex d)) \<or> out = Rejected (''Dispenser response timed out after '' @ intToString ms @ ''ms'')"
  using assms
proof (induction ms r evs rule: firstOutcome.induct)
  case (3 ms r evs)
  then show ?case by (auto split: if_splits)
qed auto

lemma fold_preserves:
  assumes "\<And>x s. P s \<Longrightarrow> P (f x s)" and "P s"
  shows "P (fold f xs s)"
  using assms(2) by (induction xs arbitrary: s) (simp_all add: assms(1))

text \<open>Every state the event loop can reach from the initial one is well formed.\<close>

lemma wellFormed_onceWrapper: "wellFormed s \<Longrightarrow> wellFormed (onceWrapper d h s)"
  by (auto simp: wellFormed_def list_all_iff onceWrapper_def handler_def resolve_def
      clearTimeout_def updateResponse_def removeListener_def
      dest: set_remove1_subset [THEN subsetD])

lemma wellFormed_advanceTimer: "wellFormed s \<Longrightarrow> wellFormed (advanceTimer h s)"
  by (auto simp: wellFormed_def list_all_iff advanceTimer_def timerCallback_def reject_def
      updateResponse_def removeListener_def split: option.splits
      dest: set_remove1_subset [THEN subsetD])

lemma wellFormed_step: "wellFormed s \<Longrightarrow> wellFormed (step e s)"
proof (cases e)
  case (Call a)
  assume "wellFormed s"
  then show ?thesis
    using Call by (auto simp: wellFormed_def dispenserResponse_def Let_def list_all_iff)
next
  case (Data d)
  assume "wellFormed s"
  then show ?thesis
    using Data fold_preserves [of wellFormed "onceWrapper d", OF wellFormed_onceWrapper]
    by (simp add: emitData_def)
next
  case Tick
  assume "wellFormed s"
  then show ?thesis
    using Tick fold_preserves [of wellFormed advanceTimer, OF wellFormed_advanceTimer]
    by (simp add: tick_def)
qed

lemma wellFormed_run: "wellFormed (run evs initialParser)"
proof -
  have "wellFormed initialParser"
    by (simp add: wellFormed_def initialParser_def)
  with wellFormed_step show ?thesis
    unfolding run_def by (rule fold_preserves [of wellFormed step])
qed

text \<open>
  C2. Take any well-formed parser state, one call of \<open>dispenserResponse\<close> with an integer
  \<open>timeoutMs\<close> in the safe range (default 20000) and any events after it (further calls,
  \<open>data\<close> events, milliseconds). The call's \<open>resolve\<close> and \<open>reject\<close> are invoked never while
  nothing has decided it and exactly once afterwards, and its handler is attached exactly once
  before and not at all afterwards. Once a \<open>data\<close> event has arrived or the timer's delay has
  passed (\<open>timeoutMs\<close> milliseconds, or 1 where \<open>setTimeout\<close> replaces the delay), the call is
  decided: the handler is detached, the timer is no longer armed, and the single settlement is
  either the resolution with the hex text of the first data received or the rejection with
  \<open>Dispenser response timed out after <timeoutMs>ms\<close>.
\<close>

theorem dispenserResponse_settles_exactly_once:
  assumes "wellFormed s0"
    and "h = length (responses s0)"
    and "ms = (case timeoutArg of None \<Rightarrow> 20000 | Some t \<Rightarrow> t)"
    and "\<bar>ms\<bar> \<le> 9007199254740991"
    and "delay = (if 1 \<le> ms \<and> ms \<le> 2147483647 then nat ms else 1)"
    and "s = run evs (dispenserResponse timeoutArg s0)"
  shows "settlements (responses s ! h)
           = (case firstOutcome ms delay evs of None \<Rightarrow> [] | Some out \<Rightarrow> [out])
         \<and> count_list (listeners s) h
           = (case firstOutcome ms delay evs of None \<Rightarrow> 1 | Some out \<Rightarrow> 0)
         \<and> ((\<exists>d. Data d \<in> set evs) \<or> delay \<le> count_list evs Tick \<longrightarrow>
              h \<notin> set (listeners s) \<and> timer (responses s ! h) = None \<and>
              ((\<exists>d. Data d \<in> set evs \<and> settlements (responses s ! h) = [Resolved (toHex d)])
               \<or> settlements (responses s ! h)
                   = [Rejected (''Dispenser response timed out after ''
                        @ (if ms < 0 then ''-'' else []) @ toString10 (nat \<bar>ms\<bar>) @ ''ms'')]))"
proof -
  let ?s1 = "dispenserResponse timeoutArg s0"
  let ?msg = "''Dispenser response timed out after '' @ intToString ms @ ''ms''"
  from assms(1,2) have fresh: "count_list (listeners s0) h = 0"
    by (auto simp: wellFormed_def list_all_iff)
  have lt: "h < length (responses ?s1)"
    using assms(2) by (simp add: dispenserResponse_def Let_def)
  have rec: "responses ?s1 ! h = \<lparr>timeoutMs = ms, timer = Some delay, settlements = []\<rparr>"
    using assms(2,3,5) by (simp add: dispenserResponse_def Let_def setTimeoutDelay_def)
  have cnt: "count_list (listeners ?s1) h = 1"
    using assms(2) fresh by (simp add: dispenserResponse_def Let_def)
  note main = run_pending [OF lt rec cnt, of evs, folded assms(6)]
  have pos: "max 1 delay = delay"
    using assms(5) by (auto simp: max_def)
  have decided: "firstOutcome ms delay evs \<noteq> None"
    if "(\<exists>d. Data d \<in> set evs) \<or> delay \<le> count_list evs Tick"
    using that firstOutcome_undecided [of ms delay evs] pos by fastforce
  have "h \<notin> set (listeners s) \<and> timer (responses s ! h) = None \<and>
        ((\<exists>d. Data d \<in> set evs \<and> settlements (responses s ! h) = [Resolved (toHex d)])
         \<or> settlements (responses s ! h) = [Rejected ?msg])"
    if "(\<exists>d. Data d \<in> set evs) \<or> delay \<le> count_list evs Tick"
  proof -
    from decided [OF that] obtain out where out: "firstOutcome ms delay evs = Some out" by auto
    from main out have "count_list (listeners s) h = 0" by simp
    then have "h \<notin> set (listeners s)" by (simp add: count_list_0_iff)
    moreover from main out have "timer (responses s ! h) = None" by simp
    moreover from main out have "settlements (responses s ! h) = [out]" by simp
    ultimately show ?thesis
      using firstOutcome_shape [OF out] by auto
  qed
  with main show ?thesis
    unfolding intToString_def append_assoc by blast
qed

lemma toHex_OK: "toHex [0x23, 0x4f, 0x4b, 0x25] = ''234f4b25''"
  by (simp add: toHex_def hexDigit_def)

lemma toString10_examples:
  "toString10 2 = ''2''" "toString10 5 = ''5''" "toString10 2147483648 = ''2147483648''"
  by (simp_all add: toString10.simps digit_char_def)

text \<open>
  A reply before the default timeout; a timeout of 2 ms; a timeout of 2147483648 ms, which
  \<open>setTimeout\<close> replaces by 1 ms; and a negative timeout, replaced by 1 ms as well.
\<close>

theorem dispenserResponse_settles_exactly_once_witness:
  "wellFormed initialParser
   \<and> settlements (responses (run [Data [0x23, 0x4f, 0x4b, 0x25]]
                                 (dispenserResponse None initialParser)) ! 0)
       = [Resolved ''234f4b25'']
   \<and> 0 \<notin> set (listeners (run [Data [0x23, 0x4f, 0x4b, 0x25]]
                                (dispenserResponse None initialParser)))
   \<and> settlements (responses (run [Tick, Tick, Data [0x23, 0x4f, 0x4b, 0x25]]
                                 (dispenserResponse (Some 2) initialParser)) ! 0)
       = [Rejected ''Dispenser response timed out after 2ms'']
   \<and> 0 \<notin> set (listeners (run [Tick, Tick, Data [0x23, 0x4f, 0x4b, 0x25]]
                                (dispenserResponse (Some 2) initialParser)))
   \<and> settlements (responses (run [Tick, Data [0x23, 0x4f, 0x4b, 0x25]]
                                 (dispenserResponse (Some 2147483648) initialParser)) ! 0)
       = [Rejected ''Dispenser response timed out after 2147483648ms'']
   \<and> settlements (responses (run [Tick] (dispenserResponse (Some (- 5)) initialParser)) ! 0)
       = [Rejected ''Dispenser response timed out after -5ms'']"
proof -
  have wf: "wellFormed initialParser"
    by (simp add: wellFormed_def initialParser_def)
  have h: "0 = length (responses initialParser)"
    by (simp add: initialParser_def)
  note at = dispenserResponse_settles_exactly_once [OF wf h _ _ refl refl]
  show ?thesis
    using wf
      at [of 20000 None "[Data [0x23, 0x4f, 0x4b, 0x25]]"]
      at [of 2 "Some 2" "[Tick, Tick, Data [0x23, 0x4f, 0x4b, 0x25]]"]
      at [of 2147483648 "Some 2147483648" "[Tick, Data [0x23, 0x4f, 0x4b, 0x25]]"]
      at [of "- 5" "Some (- 5)" "[Tick]"]
    by (simp add: toHex_OK toString10_examples intToString_def)
qed

text \<open>Three calls in a row, the second one timing out, leave no listener behind.\<close>

lemma repeated_calls_leave_no_listener:
  "listeners (run [Call None, Data [0x23, 0x4f, 0x4b, 0x25], Call (Some 2), Tick, Tick,
                   Call None, Data [0x23, 0x4f, 0x4b, 0x25]] initialParser) = []"
  by (simp add: run_def initialParser_def dispenserResponse_def emitData_def tick_def
      onceWrapper_def handler_def resolve_def reject_def clearTimeout_def removeListener_def
      updateResponse_def advanceTimer_def timerCallback_def setTimeoutDelay_def Let_def)

section \<open>Neogi: no checksummed command survives the first copy of parseResponse\<close>

text \<open>A match of the data-reply pattern lies in the reply as \<open>#content#dd%\<close>.\<close>

lemma matchLazyContent_shape:
  assumes "matchLazyContent acc cs = Some (content, c2)"
  shows "\<exists>mid post. content = acc @ mid \<and> cs = mid @ CHR ''#'' # c2 @ CHR ''%'' # post \<and> length c2 = 2"
  using assms
proof (induction cs arbitrary: acc)
  case Nil
  then show ?case by simp
next
  case (Cons c cs)
  show ?case
  proof (cases "matchChecksumTail cs")
    case None
    with Cons.prems have "matchLazyContent (acc @ [c]) cs = Some (content, c2)"
      by (simp split: if_splits)
    from Cons.IH [OF this] obtain mid post
      where "content = (acc @ [c]) @ mid" and "cs = mid @ CHR ''#'' # c2 @ CHR ''%'' # post"
        and "length c2 = 2" by blast
    then have "content = acc @ (c # mid) \<and> c # cs = (c # mid) @ CHR ''#'' # c2 @ CHR ''%'' # post
        \<and> length c2 = 2" by simp
    then show ?thesis by blast
  next
    case (Some x)
    with Cons.prems have eq: "content = acc @ [c]" "c2 = x"
      by (simp_all split: if_splits)
    from matchChecksumTail_SomeD [OF Some] obtain d1 d2 rest
      where "cs = CHR ''#'' # d1 # d2 # CHR ''%'' # rest" and "x = [d1, d2]" by blast
    with eq have "content = acc @ [c] \<and> c # cs = [c] @ CHR ''#'' # c2 @ CHR ''%'' # rest
        \<and> length c2 = 2" by simp
    then show ?thesis by blast
  qed
qed

lemma matchDataReply_shape:
  assumes "matchDataReply s = Some (content, c2)"
  shows "\<exists>pre post. s = pre @ CHR ''#'' # content @ CHR ''#'' # c2 @ CHR ''%'' # post \<and> length c2 = 2"
  using assms
proof (induction s)
  case Nil
  then show ?case by simp
next
  case (Cons c s)
  show ?case
  proof (cases "c = CHR ''#'' \<and> matchLazyContent [] s \<noteq> None")
    case True
    with Cons.prems have "matchLazyContent [] s = Some (content, c2)"
      by auto
    from matchLazyContent_shape [OF this] obtain mid post
      where "content = mid" and "s = mid @ CHR ''#'' # c2 @ CHR ''%'' # post" and "length c2 = 2"
      by auto
    with True have "c # s = [] @ CHR ''#'' # content @ CHR ''#'' # c2 @ CHR ''%'' # post \<and> length c2 = 2"
      by simp
    then show ?thesis by blast
  next
    case False
    with Cons.prems have "matchDataReply s = Some (content, c2)"
      by (auto split: if_splits option.splits)
    from Cons.IH [OF this] obtain pre post
      where "s = pre @ CHR ''#'' # content @ CHR ''#'' # c2 @ CHR ''%'' # post" and "length c2 = 2"
      by blast
    then have "c # s = (c # pre) @ CHR ''#'' # content @ CHR ''#'' # c2 @ CHR ''%'' # post \<and> length c2 = 2"
      by simp
    then show ?thesis by blast
  qed
qed

lemma digit_char_inj: "a < 10 \<Longrightarrow> b < 10 \<Longrightarrow> digit_char a = digit_char b \<Longrightarrow> a = b"
proof -
  assume "a < 10" "b < 10" and eq: "digit_char a = digit_char b"
  then have "a \<in> {0, 1, 2, 3, 4, 5, 6, 7, 8, 9}" "b \<in> {0, 1, 2, 3, 4, 5, 6, 7, 8, 9}" by auto
  with eq show ?thesis
    by (auto simp: digit_char_def)
qed

lemma calculateChecksum_digits:
  "calculateChecksum text =
     [digit_char (sum_list (map charCodeAt text) mod 100 div 10),
      digit_char (sum_list (map charCodeAt text) mod 100 mod 10)]"
  unfolding calculateChecksum_def sumCharCodes_sum_list
  by (simp add: pad_two_digits)

text \<open>Appending \<open>#\<close> (code 35) always changes the checksum.\<close>

lemma calculateChecksum_hash_differs:
  "calculateChecksum (payload @ ''#'') \<noteq> calculateChecksum payload"
proof
  define S where "S = sum_list (map charCodeAt payload)"
  assume "calculateChecksum (payload @ ''#'') = calculateChecksum payload"
  then have hi: "digit_char ((S + 35) mod 100 div 10) = digit_char (S mod 100 div 10)"
    and lo: "digit_char ((S + 35) mod 100 mod 10) = digit_char (S mod 100 mod 10)"
    by (simp_all add: calculateChecksum_digits charCodeAt_def S_def)
  have tens: "(S + 35) mod 100 div 10 = S mod 100 div 10"
    by (rule digit_char_inj [OF _ _ hi]) simp_all
  have units: "(S + 35) mod 100 mod 10 = S mod 100 mod 10"
    by (rule digit_char_inj [OF _ _ lo]) simp_all
  have "(S + 35) mod 100 = 10 * ((S + 35) mod 100 div 10) + (S + 35) mod 100 mod 10"
    by (simp only: mult_div_mod_eq)
  also have "\<dots> = 10 * (S mod 100 div 10) + S mod 100 mod 10"
    by (simp only: tens units)
  also have "\<dots> = S mod 100"
    by (simp only: mult_div_mod_eq)
  finally have "(S + 35) mod 100 = S mod 100" .
  then have "100 dvd (S + 35) - S"
    by (simp only: mod_eq_dvd_iff_nat [of S "S + 35" 100, OF le_add1])
  then show False by simp
qed

text \<open>
  Hence no frame built by \<open>buildCommandWithChecksum\<close> is decoded by the first copy's
  \<open>parseResponse\<close> into its own payload, whatever the payload.
\<close>

lemma checksummed_command_never_round_trips:
  "parseResponse hex2a (buildCommandWithChecksum payload)
     \<noteq> Inr \<lparr>command = take 2 payload, data = drop 2 payload, checksum = c, isSimpleAck = b\<rparr>"
proof
  let ?frame = "buildCommandWithChecksum payload"
  assume ok: "parseResponse hex2a ?frame
     = Inr \<lparr>command = take 2 payload, data = drop 2 payload, checksum = c, isSimpleAck = b\<rparr>"
  have frame: "?frame = CHR ''#'' # payload @ CHR ''#'' # calculateChecksum payload @ ''%''"
    by (simp add: buildCommandWithChecksum_def)
  have starts: "startsWithHash ?frame" by (simp add: frame startsWithHash_def)
  have second: "includesHashFrom1 ?frame" by (simp add: frame includesHashFrom1_def)
  from ok starts second
  have data: "parseDataReply True ?frame
     = Inr \<lparr>command = take 2 payload, data = drop 2 payload, checksum = c, isSimpleAck = b\<rparr>"
    by (simp add: parseResponse_def parseResponseWith_def Let_def)
  then obtain content c2 where m: "matchDataReply ?frame = Some (content, c2)"
    and sum: "calculateChecksum (content @ ''#'') = c2"
    and cmd: "take 2 content = take 2 payload" and dat: "drop 2 content = drop 2 payload"
    by (auto simp: parseDataReply_def Let_def split: option.splits if_splits)
  from cmd dat have content: "content = payload"
    by (metis append_take_drop_id)
  from matchDataReply_shape [OF m] obtain pre post
    where shape: "?frame = pre @ CHR ''#'' # content @ CHR ''#'' # c2 @ CHR ''%'' # post"
      and len: "length c2 = 2" by blast
  have l2: "length (calculateChecksum payload) = 2"
    by (simp add: calculateChecksum_digits)
  have "length ?frame = length payload + 5"
    unfolding frame using l2 by simp
  moreover have "length ?frame = length pre + length post + length payload + 5"
    by (subst shape) (simp add: len content)
  ultimately have "pre = []" and "post = []" by simp_all
  with shape content have "c2 = calculateChecksum payload"
    by (simp add: frame)
  with sum content show False
    using calculateChecksum_hash_differs by simp
qed


lemma preset_command_never_round_trips:
  "\<exists>payload. buildPresetCommand v vehicleNo mode = buildCommandWithChecksum payload
      \<and> parseResponse hex2a (buildPresetCommand v vehicleNo mode)
          \<noteq> Inr \<lparr>command = take 2 payload, data = drop 2 payload, checksum = c, isSimpleAck = b\<rparr>"
proof -
  obtain payload where "buildPresetCommand v vehicleNo mode = buildCommandWithChecksum payload"
    by (simp add: buildPresetCommand_def Let_def)
  with checksummed_command_never_round_trips [of hex2a payload c b] show ?thesis
    by auto
qed

end
